theory Spec2Isabelle
  imports Main "HOL-Library.AList" "HOL-Library.List_Lexorder"
begin

section \<open>Python values\<close>

text \<open>
  A Python \<open>str\<close> is a sequence of Unicode code points, so a string of the model is a list
  of code points. Comparison of such lists (the lexicographic order on lists of naturals)
  is Python's comparison of strings. \<open>ascii\<close> turns a literal into code points.
\<close>

type_synonym pystr = "nat list"

definition ascii :: "string \<Rightarrow> pystr" where
  "ascii s = map of_char s"

text \<open>
  The values that \<open>json.load\<close> produces and that the program stores in its dictionaries.
  A dictionary keeps its insertion order, so it is an association list whose keys are
  distinct; its keys are strings throughout the program. Floating-point numbers are left out.
\<close>

datatype pyval =
    PNone
  | PBool bool
  | PInt int
  | PStr pystr
  | PList "pyval list"
  | PDict "(pystr \<times> pyval) list"

type_synonym pydict = "(pystr \<times> pyval) list"

text \<open>
  Exceptions as values. \<open>FetchFailed msg\<close> is the \<open>Exception(msg)\<close> that
  \<open>fetch_with_retry\<close> raises. \<open>Unmodelled\<close> marks an input on which the model does
  not follow Python (a url or a timestamp that is not a string, a title that is a
  dictionary, a task index outside the listing); no theorem below says anything about such
  a run.
\<close>

datatype exn =
    KeyError pystr
  | TypeError
  | AttributeError
  | FetchFailed pystr
  | Unmodelled

text \<open>\<open>bool(v)\<close>: the truth value Python gives to \<open>v\<close> in a condition.\<close>

fun truthy :: "pyval \<Rightarrow> bool" where
  "truthy PNone = False"
| "truthy (PBool b) = b"
| "truthy (PInt i) = (i \<noteq> 0)"
| "truthy (PStr s) = (s \<noteq> [])"
| "truthy (PList xs) = (xs \<noteq> [])"
| "truthy (PDict d) = (d \<noteq> [])"

text \<open>\<open>k in d\<close>, \<open>d[k]\<close>, \<open>d.get(k, dflt)\<close> and \<open>d[k] = v\<close> on a dictionary.\<close>

definition dict_has :: "pydict \<Rightarrow> pystr \<Rightarrow> bool" where
  "dict_has d k = (map_of d k \<noteq> None)"

definition subscript :: "pydict \<Rightarrow> pystr \<Rightarrow> exn + pyval" where
  "subscript d k = (case map_of d k of None \<Rightarrow> Inl (KeyError k) | Some v \<Rightarrow> Inr v)"

definition dict_get :: "pydict \<Rightarrow> pystr \<Rightarrow> pyval \<Rightarrow> pyval" where
  "dict_get d k dflt = (case map_of d k of None \<Rightarrow> dflt | Some v \<Rightarrow> v)"

definition dict_set :: "pystr \<Rightarrow> pyval \<Rightarrow> pydict \<Rightarrow> pydict" where
  "dict_set k v d = AList.update k v d"

text \<open>\<open>xs[:k]\<close> for an integer \<open>k\<close>: a negative \<open>k\<close> counts from the end.\<close>

definition slice_to :: "'a list \<Rightarrow> int \<Rightarrow> 'a list" where
  "slice_to xs k = (if 0 \<le> k then take (nat k) xs else take (length xs - nat (- k)) xs)"

section \<open>Configuration\<close>

text \<open>The module-level constants, read from the process environment at start-up.\<close>

record config =
  BASE_URL :: pystr
  MAX_PAPERS :: int
  MAX_RETRIES :: int
  MAX_PROCESSED_RECORDS :: int
  CACHE_VERSION :: int
  TARGET_LANGUAGES :: "pystr list"

definition desc_key :: "pystr \<Rightarrow> pystr" where
  "desc_key lang = ascii ''description_'' @ lang"

definition abs_key :: "pystr \<Rightarrow> pystr" where
  "abs_key lang = ascii ''abstractFull_'' @ lang"

section \<open>Incremental update: the cache file\<close>

text \<open>
  The cache file: absent, present but not readable as JSON (or not openable), or holding a
  JSON document. \<open>json.dump\<close> followed by \<open>json.load\<close> gives back the value written,
  for the values of \<open>pyval\<close>; the file is modelled as holding that value.
\<close>

datatype cache_file = Missing | Unreadable | Json pyval

text \<open>\<open>v != n\<close> for a loaded value \<open>v\<close> and an integer \<open>n\<close> (\<open>True == 1\<close> in Python).\<close>

fun ne_int :: "pyval \<Rightarrow> int \<Rightarrow> bool" where
  "ne_int (PInt i) n = (i \<noteq> n)"
| "ne_int (PBool b) n = ((if b then 1 else 0) \<noteq> n)"
| "ne_int v n = True"

text \<open>Whether \<open>len(v)\<close> is defined; it raises \<open>TypeError\<close> on the other values.\<close>

fun has_len :: "pyval \<Rightarrow> bool" where
  "has_len (PStr s) = True"
| "has_len (PList xs) = True"
| "has_len (PDict d) = True"
| "has_len v = False"

text \<open>
  \<open>load_processed_papers\<close>. Every exception inside the \<open>try\<close> gives two empty
  dictionaries: a document that is not an object has no \<open>get\<close>, and the two log lines
  take \<open>len\<close> of the values read.
\<close>

definition load_processed_papers :: "config \<Rightarrow> cache_file \<Rightarrow> pyval \<times> pyval" where
  "load_processed_papers cfg f =
     (case f of
        Missing \<Rightarrow> (PDict [], PDict [])
      | Unreadable \<Rightarrow> (PDict [], PDict [])
      | Json data \<Rightarrow>
          (case data of
             PDict d \<Rightarrow>
               (let cache_version = dict_get d (ascii ''version'') (PInt 1) in
                if ne_int cache_version (CACHE_VERSION cfg) then (PDict [], PDict [])
                else
                  (let processed_timestamps = dict_get d (ascii ''papers'') (PDict []);
                       paper_cache = dict_get d (ascii ''paper_cache'') (PDict [])
                   in if has_len processed_timestamps \<and> has_len paper_cache
                      then (processed_timestamps, paper_cache)
                      else (PDict [], PDict [])))
           | _ \<Rightarrow> (PDict [], PDict [])))"

text \<open>
  The dictionary comprehension \<open>{lang: paper.get(key(lang), '') for lang in TARGET_LANGUAGES}\<close>.
\<close>

definition translations_of :: "(pystr \<Rightarrow> pystr) \<Rightarrow> pystr list \<Rightarrow> pydict \<Rightarrow> pydict" where
  "translations_of key langs paper =
     fold (\<lambda>lang d. dict_set lang (dict_get paper (key lang) (PStr [])) d) langs []"

text \<open>The entry stored for a new paper (lines 87 to 102); \<open>paper['title']\<close> may raise.\<close>

definition cache_entry :: "config \<Rightarrow> pydict \<Rightarrow> exn + pyval" where
  "cache_entry cfg paper =
     (case subscript paper (ascii ''title'') of
        Inl e \<Rightarrow> Inl e
      | Inr title \<Rightarrow>
          (case subscript paper (ascii ''url'') of
             Inl e \<Rightarrow> Inl e
           | Inr url \<Rightarrow> Inr (PDict
               [(ascii ''title'', title),
                (ascii ''url'', url),
                (ascii ''institution'', dict_get paper (ascii ''institution'') (PStr (ascii ''N/A''))),
                (ascii ''abstract'', dict_get paper (ascii ''abstract'') (PStr [])),
                (ascii ''abstract_short'', dict_get paper (ascii ''abstract_short'') (PStr [])),
                (ascii ''arxiv_abs'', dict_get paper (ascii ''arxiv_abs'') PNone),
                (ascii ''arxiv_pdf'', dict_get paper (ascii ''arxiv_pdf'') PNone),
                (ascii ''authors'', dict_get paper (ascii ''authors'') (PList [])),
                (ascii ''pub_date'', dict_get paper (ascii ''pub_date'') PNone),
                (ascii ''translations'', PDict
                  [(ascii ''descriptions'',
                      PDict (translations_of desc_key (TARGET_LANGUAGES cfg) paper)),
                   (ascii ''abstract_fulls'',
                      PDict (translations_of abs_key (TARGET_LANGUAGES cfg) paper))])])))"

text \<open>
  The insertion loop of \<open>save_processed_papers\<close> (lines 83 to 103). It updates the two
  dictionaries in place; the model returns them. An exception leaves the function, and
  the run, at once.
\<close>

fun merge_papers :: "config \<Rightarrow> pystr \<Rightarrow> pydict list \<Rightarrow> pydict \<Rightarrow> pydict \<Rightarrow> exn + (pydict \<times> pydict)" where
  "merge_papers cfg current_time [] processed_dict paper_cache = Inr (processed_dict, paper_cache)"
| "merge_papers cfg current_time (paper # papers) processed_dict paper_cache =
     (case subscript paper (ascii ''url'') of
        Inl e \<Rightarrow> Inl e
      | Inr (PStr url) \<Rightarrow>
          (if \<not> dict_has processed_dict url then
             (case cache_entry cfg paper of
                Inl e \<Rightarrow> Inl e
              | Inr entry \<Rightarrow>
                  merge_papers cfg current_time papers
                    (dict_set url (PStr current_time) processed_dict)
                    (dict_set url entry paper_cache))
           else merge_papers cfg current_time papers processed_dict paper_cache)
      | Inr _ \<Rightarrow> Inl Unmodelled)"

text \<open>
  The timestamps as strings, when all of them are; the sort of line 110 compares them.
\<close>

fun timestamp_items :: "pydict \<Rightarrow> (pystr \<times> pystr) list option" where
  "timestamp_items [] = Some []"
| "timestamp_items ((url, PStr t) # d) = map_option ((#) (url, t)) (timestamp_items d)"
| "timestamp_items ((url, v) # d) = None"

text \<open>
  \<open>sorted(items, key=lambda x: x[1], reverse=True)\<close>: a stable sort in descending order,
  which keeps the original order of items with equal keys.
\<close>

definition sorted_desc :: "(pystr \<times> pystr) list \<Rightarrow> (pystr \<times> pystr) list" where
  "sorted_desc items = rev (sort_key snd (rev items))"

text \<open>
  The clean-up of \<open>save_processed_papers\<close> (lines 108 to 115). The two dictionaries are
  rebuilt from the set \<open>kept_urls\<close>, whose iteration order Python does not fix; the model
  lists the kept entries in sorted order, and no theorem depends on that order.
\<close>

definition prune_cache :: "config \<Rightarrow> pydict \<Rightarrow> pydict \<Rightarrow> exn + (pydict \<times> pydict)" where
  "prune_cache cfg processed_dict paper_cache =
     (if int (length processed_dict) > MAX_PROCESSED_RECORDS cfg then
        (case timestamp_items processed_dict of
           None \<Rightarrow> Inl Unmodelled
         | Some items \<Rightarrow>
             (let sorted_items = sorted_desc items;
                  kept_urls = remdups (map fst (slice_to sorted_items (MAX_PROCESSED_RECORDS cfg)))
              in Inr (List.map_filter (\<lambda>url. map_option (Pair url) (map_of processed_dict url)) kept_urls,
                      List.map_filter (\<lambda>url. map_option (Pair url) (map_of paper_cache url)) kept_urls)))
      else Inr (processed_dict, paper_cache))"

text \<open>
  The write of lines 117 to 127. \<open>disk = None\<close>: the write succeeds. \<open>disk = Some f\<close>:
  opening or writing raises, which is logged, and leaves the file as \<open>f\<close>.
\<close>

definition persist_cache :: "config \<Rightarrow> pystr \<Rightarrow> cache_file option \<Rightarrow> pydict \<Rightarrow> pydict \<Rightarrow> cache_file" where
  "persist_cache cfg current_time disk processed_dict paper_cache =
     (case disk of
        Some f \<Rightarrow> f
      | None \<Rightarrow> Json (PDict
          [(ascii ''version'', PInt (CACHE_VERSION cfg)),
           (ascii ''papers'', PDict processed_dict),
           (ascii ''paper_cache'', PDict paper_cache),
           (ascii ''last_updated'', PStr current_time)]))"

text \<open>The insertion loop followed by the clean-up.\<close>

definition merge_then_prune :: "config \<Rightarrow> pystr \<Rightarrow> pydict list \<Rightarrow> pydict \<Rightarrow> pydict \<Rightarrow> exn + (pydict \<times> pydict)" where
  "merge_then_prune cfg current_time papers processed_dict paper_cache =
     (case merge_papers cfg current_time papers processed_dict paper_cache of
        Inl e \<Rightarrow> Inl e
      | Inr (pd, pc) \<Rightarrow> prune_cache cfg pd pc)"

text \<open>
  \<open>save_processed_papers\<close>: the file it leaves, with the two dictionaries it wrote.
\<close>

definition save_processed_papers ::
  "config \<Rightarrow> pystr \<Rightarrow> cache_file option \<Rightarrow> pydict list \<Rightarrow> pydict \<Rightarrow> pydict \<Rightarrow> exn + (cache_file \<times> pydict \<times> pydict)" where
  "save_processed_papers cfg current_time disk papers processed_dict paper_cache =
     (case merge_then_prune cfg current_time papers processed_dict paper_cache of
        Inl e \<Rightarrow> Inl e
      | Inr (pd, pc) \<Rightarrow> Inr (persist_cache cfg current_time disk pd pc, pd, pc))"

text \<open>The identities (\<open>paper['url']\<close>) of a list of papers.\<close>

definition paper_urls :: "pydict list \<Rightarrow> pystr list" where
  "paper_urls papers =
     List.map_filter
       (\<lambda>paper. case map_of paper (ascii ''url'') of Some (PStr url) \<Rightarrow> Some url | _ \<Rightarrow> None)
       papers"

section \<open>Strings and regular expressions\<close>

text \<open>\<open>str.isspace\<close> on one code point; the class \<open>\s\<close> of \<open>re\<close> is the same set.\<close>

definition is_space :: "nat \<Rightarrow> bool" where
  "is_space c \<longleftrightarrow>
     (9 \<le> c \<and> c \<le> 13) \<or> (28 \<le> c \<and> c \<le> 32) \<or> c = 133 \<or> c = 160 \<or> c = 5760
     \<or> (8192 \<le> c \<and> c \<le> 8202) \<or> c = 8232 \<or> c = 8233 \<or> c = 8239 \<or> c = 8287 \<or> c = 12288"

text \<open>\<open>s.strip()\<close>.\<close>

definition strip :: "pystr \<Rightarrow> pystr" where
  "strip s = rev (dropWhile is_space (rev (dropWhile is_space s)))"

text \<open>\<open>s.startswith(p)\<close> and \<open>p in s\<close> for strings.\<close>

fun startswith :: "pystr \<Rightarrow> pystr \<Rightarrow> bool" where
  "startswith s [] = True"
| "startswith [] (p # ps) = False"
| "startswith (c # s) (p # ps) = (c = p \<and> startswith s ps)"

fun contains :: "pystr \<Rightarrow> pystr \<Rightarrow> bool" where
  "contains [] p = (p = [])"
| "contains (c # s) p = (startswith (c # s) p \<or> contains s p)"

text \<open>
  The patterns of the program are sequences of literals and of repeated character classes,
  with at most one group. \<open>Rep cls greedy n\<close> is the class \<open>cls\<close> repeated at least
  \<open>n\<close> times, greedy (\<open>*\<close>, \<open>+\<close>) or lazy (\<open>*?\<close>); \<open>Open\<close> and \<open>Close\<close> are the
  parentheses of the group.
\<close>

datatype item = Lit pystr | Rep "nat \<Rightarrow> bool" bool nat | Open | Close

text \<open>The first alternative that succeeds, in the order the matcher tries them.\<close>

fun first_some :: "('a \<Rightarrow> 'b option) \<Rightarrow> 'a list \<Rightarrow> 'b option" where
  "first_some f [] = None"
| "first_some f (x # xs) = (case f x of Some r \<Rightarrow> Some r | None \<Rightarrow> first_some f xs)"

text \<open>The repetition counts in the order they are tried: longest first when greedy.\<close>

definition counts :: "bool \<Rightarrow> nat \<Rightarrow> nat \<Rightarrow> nat list" where
  "counts greedy n m = (if greedy then rev [n..<Suc m] else [n..<Suc m])"

text \<open>
  Backtracking match of a pattern at the start of \<open>s\<close>: the rest of the input after the
  match, with the text of the group. While the group is open, \<open>g\<close> holds the input
  from where it opened.
\<close>

primrec rx :: "item list \<Rightarrow> pystr \<Rightarrow> pystr \<Rightarrow> (pystr \<times> pystr) option" where
  "rx [] s g = Some (s, g)"
| "rx (it # its) s g =
     (case it of
        Lit l \<Rightarrow> if startswith s l then rx its (drop (length l) s) g else None
      | Rep cls greedy n \<Rightarrow>
          first_some (\<lambda>k. rx its (drop k s) g) (counts greedy n (length (takeWhile cls s)))
      | Open \<Rightarrow> rx its s s
      | Close \<Rightarrow> rx its s (take (length g - length s) g))"

text \<open>
  \<open>re.search(p, s)\<close>: the leftmost match, as (start, end, group 1); \<open>i\<close> is the
  position of \<open>s\<close> in the whole input.
\<close>

fun search_from :: "item list \<Rightarrow> nat \<Rightarrow> pystr \<Rightarrow> (nat \<times> nat \<times> pystr) option" where
  "search_from p i [] =
     (case rx p [] [] of None \<Rightarrow> None | Some (rest, g) \<Rightarrow> Some (i, i, g))"
| "search_from p i (c # cs) =
     (case rx p (c # cs) [] of
        None \<Rightarrow> search_from p (Suc i) cs
      | Some (rest, g) \<Rightarrow> Some (i, i + (length (c # cs) - length rest), g))"

definition re_search :: "item list \<Rightarrow> pystr \<Rightarrow> (nat \<times> nat \<times> pystr) option" where
  "re_search p s = search_from p 0 s"

text \<open>
  \<open>re.findall(p, s)\<close> for a pattern with one group: the group of each match, the
  matches taken from left to right without overlap. After a match of no character the
  scan moves one character on; the patterns of the program match at least one character.
\<close>

function re_findall :: "item list \<Rightarrow> pystr \<Rightarrow> pystr list" where
  "re_findall p [] = (case rx p [] [] of None \<Rightarrow> [] | Some (rest, g) \<Rightarrow> [g])"
| "re_findall p (c # cs) =
     (case rx p (c # cs) [] of
        None \<Rightarrow> re_findall p cs
      | Some (rest, g) \<Rightarrow>
          if length rest < length (c # cs) then g # re_findall p rest
          else g # re_findall p cs)"
  by pat_completeness auto
termination
  by (relation "measure (\<lambda>(p, s). length s)") auto

text \<open>\<open>re.sub(p, repl, s)\<close> for a replacement without group references.\<close>

function re_sub :: "item list \<Rightarrow> pystr \<Rightarrow> pystr \<Rightarrow> pystr" where
  "re_sub p repl [] = (case rx p [] [] of None \<Rightarrow> [] | Some (rest, g) \<Rightarrow> repl)"
| "re_sub p repl (c # cs) =
     (case rx p (c # cs) [] of
        None \<Rightarrow> c # re_sub p repl cs
      | Some (rest, g) \<Rightarrow>
          if length rest < length (c # cs) then repl @ re_sub p repl rest
          else repl @ c # re_sub p repl cs)"
  by pat_completeness auto
termination
  by (relation "measure (\<lambda>(p, repl, s). length s)") auto

text \<open>
  \<open>re.sub('^' + p, '', s)\<close>: the anchor lets the pattern match at the start of the
  string only, so at most one match is removed.
\<close>

definition re_sub_at_start :: "item list \<Rightarrow> pystr \<Rightarrow> pystr" where
  "re_sub_at_start p s = (case rx p s [] of None \<Rightarrow> s | Some (rest, g) \<Rightarrow> rest)"

text \<open>Character classes and the patterns of the program.\<close>

definition not_gt :: "nat \<Rightarrow> bool" where
  "not_gt c \<longleftrightarrow> c \<noteq> 62"

definition not_quote :: "nat \<Rightarrow> bool" where
  "not_quote c \<longleftrightarrow> c \<noteq> 34"

definition any_char :: "nat \<Rightarrow> bool" where
  "any_char c \<longleftrightarrow> True"

definition whitespace_run :: "item list" where
  "whitespace_run = [Rep is_space True 1]"

definition markup_tag :: "item list" where
  "markup_tag = [Lit (ascii ''<''), Rep not_gt True 1, Lit (ascii ''>'')]"

definition short_abstract_div :: "item list" where
  "short_abstract_div =
     [Lit (ascii ''<div''), Rep not_gt True 0, Lit (ascii ''class=\"''), Rep not_quote True 0,
      Lit (ascii ''pb-8 pr-4 md:pr-16''), Rep not_quote True 0, Lit (ascii ''\"''),
      Rep not_gt True 0, Lit (ascii ''>''), Open, Rep any_char False 0, Close,
      Lit (ascii ''</div>'')]"

definition abstract_heading :: "item list" where
  "abstract_heading = [Lit (ascii ''<h2''), Rep not_gt True 0, Lit (ascii ''>Abstract</h2>'')]"

definition heading_start :: "item list" where
  "heading_start = [Lit (ascii ''<h2'')]"

definition paragraph_block :: "item list" where
  "paragraph_block =
     [Lit (ascii ''<p''), Rep not_gt True 0, Lit (ascii ''>''), Open, Rep any_char False 0, Close,
      Lit (ascii ''</p>'')]"

definition summary_label :: "item list" where
  "summary_label = [Lit (ascii ''AI-generated summary''), Rep is_space True 0]"

definition authors_array :: "item list" where
  "authors_array =
     [Lit (ascii ''\"authors\":''), Rep is_space True 0, Lit (ascii ''[''), Open,
      Rep any_char False 0, Close, Lit (ascii '']'')]"

definition author_name :: "item list" where
  "author_name =
     [Lit (ascii ''\"name\":''), Rep is_space True 0, Lit (ascii ''\"''), Open,
      Rep not_quote True 1, Close, Lit (ascii ''\"'')]"

section \<open>HTML parsing: PaperExtractor\<close>

text \<open>
  \<open>HTMLParser.feed\<close> cuts the markup into events and calls one handler per event; the
  tokenizer belongs to the standard library, and the extractor is modelled on the events.
  An attribute written without a value has the value \<open>None\<close>.
\<close>

type_synonym attrs = "(pystr \<times> pystr option) list"

datatype event = StartTag pystr attrs | EndTag pystr | Data pystr

record extractor =
  papers :: "pydict list"
  current_paper :: "pydict option"
  in_article :: bool
  in_h3 :: bool
  in_a :: bool
  capture_text :: bool
  current_text :: pystr
  in_institution_span :: bool
  institution_text :: pystr

definition new_extractor :: extractor where
  "new_extractor = \<lparr>papers = [], current_paper = None, in_article = False, in_h3 = False,
     in_a = False, capture_text = False, current_text = [], in_institution_span = False,
     institution_text = []\<rparr>"

text \<open>
  \<open>dict(attrs).get(name, "")\<close>: the last occurrence of an attribute wins; the result
  is \<open>None\<close> for an attribute without a value.
\<close>

definition attr_get :: "attrs \<Rightarrow> pystr \<Rightarrow> pystr option" where
  "attr_get as name = (case map_of (rev as) name of None \<Rightarrow> Some [] | Some v \<Rightarrow> v)"

text \<open>
  The clean-up of the institution text at the end of an article (lines 185 to 187). The
  two separators of line 186 are the string of the code points U+00AC U+2211, as the
  source file has it, and the full stop.
\<close>

definition clean_institution :: "pystr \<Rightarrow> pystr" where
  "clean_institution text =
     (let institution = strip (re_sub whitespace_run (ascii '' '') text)
      in if institution = [] \<or> institution \<in> set [[172, 8721], ascii ''.'']
         then ascii ''N/A'' else institution)"

text \<open>
  \<open>handle_starttag\<close>, one definition per \<open>if\<close> of the source, in its order. Storing
  into \<open>current_paper\<close> when it is \<open>None\<close>, and \<open>in\<close> on a class that is \<open>None\<close>,
  raise \<open>TypeError\<close>.
\<close>

definition start_article :: "pystr \<Rightarrow> extractor \<Rightarrow> extractor" where
  "start_article tag s =
     (if tag = ascii ''article'' then s\<lparr>in_article := True, current_paper := Some []\<rparr> else s)"

definition start_h3 :: "pystr \<Rightarrow> extractor \<Rightarrow> extractor" where
  "start_h3 tag s = (if in_article s \<and> tag = ascii ''h3'' then s\<lparr>in_h3 := True\<rparr> else s)"

definition start_a :: "pystr \<Rightarrow> attrs \<Rightarrow> extractor \<Rightarrow> exn + extractor" where
  "start_a tag as s =
     (if in_h3 s \<and> tag = ascii ''a'' then
        (case attr_get as (ascii ''href'') of
           Some (c # href) \<Rightarrow>
             (case current_paper s of
                None \<Rightarrow> Inl TypeError
              | Some paper \<Rightarrow>
                  Inr (s\<lparr>in_a := True,
                         current_paper := Some (dict_set (ascii ''url'')
                           (PStr (ascii ''https://huggingface.co'' @ c # href)) paper),
                         capture_text := True, current_text := []\<rparr>))
         | _ \<Rightarrow> Inr (s\<lparr>in_a := True, capture_text := True, current_text := []\<rparr>))
      else Inr s)"

definition start_span :: "pystr \<Rightarrow> pystr option \<Rightarrow> extractor \<Rightarrow> exn + extractor" where
  "start_span tag class_name s =
     (if in_article s \<and> \<not> in_h3 s \<and> \<not> in_a s \<and> tag = ascii ''span'' then
        (case class_name of
           None \<Rightarrow> Inl TypeError
         | Some cls \<Rightarrow>
             if contains cls (ascii ''truncate'') \<and> contains cls (ascii ''font-medium'')
             then Inr (s\<lparr>in_institution_span := True, institution_text := []\<rparr>)
             else Inr s)
      else Inr s)"

definition handle_starttag :: "extractor \<Rightarrow> pystr \<Rightarrow> attrs \<Rightarrow> exn + extractor" where
  "handle_starttag s tag as =
     (let class_name = attr_get as (ascii ''class'')
      in case start_a tag as (start_h3 tag (start_article tag s)) of
           Inl e \<Rightarrow> Inl e
         | Inr s' \<Rightarrow> start_span tag class_name s')"

text \<open>\<open>handle_endtag\<close>, again one definition per \<open>if\<close>.\<close>

definition end_a :: "pystr \<Rightarrow> extractor \<Rightarrow> exn + extractor" where
  "end_a tag s =
     (if tag = ascii ''a'' \<and> in_a s then
        (if current_text s \<noteq> [] then
           (case current_paper s of
              None \<Rightarrow> Inl TypeError
            | Some paper \<Rightarrow>
                Inr (s\<lparr>in_a := False,
                       current_paper := Some (dict_set (ascii ''title'')
                         (PStr (strip (current_text s))) paper),
                       capture_text := False\<rparr>))
         else Inr (s\<lparr>in_a := False, capture_text := False\<rparr>))
      else Inr s)"

definition end_h3 :: "pystr \<Rightarrow> extractor \<Rightarrow> extractor" where
  "end_h3 tag s = (if tag = ascii ''h3'' \<and> in_h3 s then s\<lparr>in_h3 := False\<rparr> else s)"

definition end_span :: "pystr \<Rightarrow> extractor \<Rightarrow> extractor" where
  "end_span tag s =
     (if tag = ascii ''span'' \<and> in_institution_span s then s\<lparr>in_institution_span := False\<rparr>
      else s)"

text \<open>
  The test of line 183 on a scratch record that is not \<open>None\<close>: it is not empty and
  holds a title and a url that Python takes as true.
\<close>

definition complete :: "pydict \<Rightarrow> bool" where
  "complete paper \<longleftrightarrow>
     paper \<noteq> [] \<and> truthy (dict_get paper (ascii ''title'') PNone)
     \<and> truthy (dict_get paper (ascii ''url'') PNone)"

text \<open>The record appended to \<open>papers\<close> at line 189, if any.\<close>

definition emitted :: "extractor \<Rightarrow> pydict list" where
  "emitted s =
     (case current_paper s of
        None \<Rightarrow> []
      | Some paper \<Rightarrow>
          if complete paper
          then [dict_set (ascii ''institution'') (PStr (clean_institution (institution_text s)))
                  paper]
          else [])"

definition end_article :: "pystr \<Rightarrow> extractor \<Rightarrow> extractor" where
  "end_article tag s =
     (if tag = ascii ''article'' \<and> in_article s then
        s\<lparr>papers := papers s @ emitted s, in_article := False, current_paper := None,
          institution_text := []\<rparr>
      else s)"

definition handle_endtag :: "extractor \<Rightarrow> pystr \<Rightarrow> exn + extractor" where
  "handle_endtag s tag =
     (case end_a tag s of
        Inl e \<Rightarrow> Inl e
      | Inr s' \<Rightarrow> Inr (end_article tag (end_span tag (end_h3 tag s'))))"

definition handle_data :: "extractor \<Rightarrow> pystr \<Rightarrow> extractor" where
  "handle_data s data =
     (let s' = (if capture_text s then s\<lparr>current_text := current_text s @ data\<rparr> else s)
      in if in_institution_span s' then s'\<lparr>institution_text := institution_text s' @ data\<rparr>
         else s')"

text \<open>\<open>feed\<close>: the handlers run event by event; an exception ends the run.\<close>

fun feed :: "extractor \<Rightarrow> event list \<Rightarrow> exn + extractor" where
  "feed s [] = Inr s"
| "feed s (StartTag tag as # evs) =
     (case handle_starttag s tag as of Inl e \<Rightarrow> Inl e | Inr s' \<Rightarrow> feed s' evs)"
| "feed s (EndTag tag # evs) =
     (case handle_endtag s tag of Inl e \<Rightarrow> Inl e | Inr s' \<Rightarrow> feed s' evs)"
| "feed s (Data data # evs) = feed (handle_data s data) evs"

text \<open>A record holds a non-empty string under a key; or it holds nothing, or the empty string.\<close>

definition has_text :: "pydict \<Rightarrow> pystr \<Rightarrow> bool" where
  "has_text paper k = (case map_of paper k of Some (PStr t) \<Rightarrow> t \<noteq> [] | _ \<Rightarrow> False)"

definition lacks :: "pydict \<Rightarrow> pystr \<Rightarrow> bool" where
  "lacks paper k = (case map_of paper k of None \<Rightarrow> True | Some v \<Rightarrow> v = PStr [])"

text \<open>
  The invariant of the extractor: the emitted records hold a url and a title, and the
  scratch record holds strings only.
\<close>

definition text_valued :: "pydict \<Rightarrow> bool" where
  "text_valued paper \<longleftrightarrow> (\<forall>k v. map_of paper k = Some v \<longrightarrow> (\<exists>t. v = PStr t))"

definition extractor_inv :: "extractor \<Rightarrow> bool" where
  "extractor_inv s \<longleftrightarrow>
     (\<forall>paper \<in> set (papers s). has_text paper (ascii ''url'') \<and> has_text paper (ascii ''title''))
     \<and> (\<forall>paper. current_paper s = Some paper \<longrightarrow> text_valued paper)"

text \<open>A string whose only whitespace is single spaces between other characters.\<close>

definition tidy :: "pystr \<Rightarrow> bool" where
  "tidy s \<longleftrightarrow> (\<forall>c \<in> set s. is_space c \<longrightarrow> c = 32)
     \<and> successively (\<lambda>a b. \<not> (is_space a \<and> is_space b)) s"

section \<open>The outside world\<close>

text \<open>
  What the program gets from outside, as functions. Every call of the HTTP client or of the
  translation backend inside one task takes the next tick, so that the same request may
  fail at one attempt and succeed at another; \<open>None\<close> is a call that raises.
  \<open>html_events\<close> is the tokenizer of \<open>HTMLParser\<close>, \<open>unicode_digit\<close> the class
  \<open>\d\<close> of \<open>re\<close> (the decimal digits of Unicode), \<open>pub_date_at i\<close> the formatted time
  \<open>base_time + i\<close> seconds and \<open>now_text\<close> the formatted current time.
\<close>

record world =
  http_get :: "nat \<Rightarrow> pystr \<Rightarrow> pystr option"
  translate :: "nat \<Rightarrow> pystr \<Rightarrow> pystr \<Rightarrow> pystr option"
  html_events :: "pystr \<Rightarrow> event list"
  unicode_digit :: "nat \<Rightarrow> bool"
  pub_date_at :: "nat \<Rightarrow> pystr"
  now_text :: pystr

text \<open>\<open>str(n)\<close> for an integer.\<close>

fun digits :: "nat \<Rightarrow> pystr" where
  "digits n = (if n < 10 then [48 + n] else digits (n div 10) @ [48 + n mod 10])"

declare digits.simps [simp del]

definition str_int :: "int \<Rightarrow> pystr" where
  "str_int i = (if i < 0 then 45 # digits (nat (- i)) else digits (nat i))"

section \<open>Data extraction\<close>

text \<open>
  \<open>fetch_with_retry\<close>: up to \<open>MAX_RETRIES\<close> attempts from tick \<open>t\<close>; the result comes
  with the next free tick. The pauses between attempts are not modelled.
\<close>

fun fetch_attempts :: "world \<Rightarrow> pystr \<Rightarrow> nat \<Rightarrow> nat \<Rightarrow> pystr option \<times> nat" where
  "fetch_attempts w url 0 t = (None, t)"
| "fetch_attempts w url (Suc k) t =
     (case http_get w t url of
        Some text \<Rightarrow> (Some text, Suc t)
      | None \<Rightarrow> fetch_attempts w url k (Suc t))"

definition fetch_with_retry :: "config \<Rightarrow> world \<Rightarrow> nat \<Rightarrow> pystr \<Rightarrow> (exn + pystr) \<times> nat" where
  "fetch_with_retry cfg w t url =
     (case fetch_attempts w url (nat (MAX_RETRIES cfg)) t of
        (Some text, t') \<Rightarrow> (Inr text, t')
      | (None, t') \<Rightarrow>
          (Inl (FetchFailed (ascii ''Failed to fetch '' @ url @ ascii '' after ''
                  @ str_int (MAX_RETRIES cfg) @ ascii '' attempts'')), t'))"

text \<open>The result of \<open>extract_abstracts\<close>.\<close>

record details =
  abstract_short :: pystr
  abstract_full :: pystr
  arxiv_abs :: "pystr option"
  arxiv_pdf :: "pystr option"
  authors :: "pystr list"

text \<open>Lines 227 to 231: the short abstract.\<close>

definition short_abstract :: "pystr \<Rightarrow> pystr" where
  "short_abstract html =
     (case re_search short_abstract_div html of
        Some (i, j, g) \<Rightarrow> strip (re_sub markup_tag [] g)
      | None \<Rightarrow> ascii ''[Not available]'')"

text \<open>
  Lines 234 to 248: the full abstract, the second paragraph between the heading
  \<open>Abstract\<close> and the next heading.
\<close>

definition full_abstract :: "pystr \<Rightarrow> pystr" where
  "full_abstract html =
     (case re_search abstract_heading html of
        Some (i, start, g) \<Rightarrow>
          (case re_search heading_start (drop start html) of
             Some (next_h2, j, g') \<Rightarrow>
               (let p_tags = re_findall paragraph_block (take next_h2 (drop start html))
                in if length p_tags \<ge> 2
                   then re_sub_at_start summary_label (strip (re_sub markup_tag [] (p_tags ! 1)))
                   else short_abstract html)
           | None \<Rightarrow> short_abstract html)
      | None \<Rightarrow> short_abstract html)"

text \<open>Lines 251 to 265: at most five author names.\<close>

definition author_names :: "pystr \<Rightarrow> pystr list" where
  "author_names html =
     (let html_decoded = re_sub [Lit (ascii ''&quot;'')] (ascii ''\"'') html
      in case re_search authors_array html_decoded of
           Some (i, j, authors_json) \<Rightarrow>
             filter (\<lambda>name. name \<noteq> []) (take 5 (re_findall author_name authors_json))
         | None \<Rightarrow> [])"

text \<open>Lines 268 to 272: the arXiv identifier.\<close>

definition paper_id :: "world \<Rightarrow> pystr \<Rightarrow> pystr option" where
  "paper_id w html =
     (case re_search
             [Lit (ascii ''papers/''), Open, Rep (unicode_digit w) True 1, Lit (ascii ''.''),
              Rep (unicode_digit w) True 1, Close] html of
        Some (i, j, pid) \<Rightarrow> Some pid
      | None \<Rightarrow> None)"

definition extract_abstracts :: "world \<Rightarrow> pystr \<Rightarrow> details" where
  "extract_abstracts w html =
     \<lparr>abstract_short = short_abstract html,
      abstract_full = full_abstract html,
      arxiv_abs = map_option (\<lambda>pid. ascii ''https://arxiv.org/abs/'' @ pid) (paper_id w html),
      arxiv_pdf = map_option (\<lambda>pid. ascii ''https://arxiv.org/pdf/'' @ pid @ ascii ''.pdf'')
                    (paper_id w html),
      authors = author_names html\<rparr>"

text \<open>
  \<open>translate_with_retry\<close>: every exception of the backend is caught, so the function
  always returns a string; after \<open>max_retries\<close> failures it returns the text itself.
\<close>

fun translate_attempts :: "world \<Rightarrow> pystr \<Rightarrow> pystr \<Rightarrow> nat \<Rightarrow> nat \<Rightarrow> pystr \<times> nat" where
  "translate_attempts w text lang 0 t = (text, t)"
| "translate_attempts w text lang (Suc k) t =
     (case translate w t text lang of
        Some r \<Rightarrow> (r, Suc t)
      | None \<Rightarrow> translate_attempts w text lang k (Suc t))"

definition translate_with_retry :: "world \<Rightarrow> nat \<Rightarrow> pystr \<Rightarrow> pystr \<Rightarrow> int \<Rightarrow> pystr \<times> nat" where
  "translate_with_retry w t text lang max_retries =
     translate_attempts w text lang (nat max_retries) t"

section \<open>Processing one paper\<close>

text \<open>
  The evaluation of \<open>paper['title'][:50]\<close> in the log lines: the title must be there and
  must be a string or a list.
\<close>

definition title_prefix :: "pydict \<Rightarrow> exn + unit" where
  "title_prefix paper =
     (case map_of paper (ascii ''title'') of
        None \<Rightarrow> Inl (KeyError (ascii ''title''))
      | Some (PStr t) \<Rightarrow> Inr ()
      | Some (PList xs) \<Rightarrow> Inr ()
      | Some (PDict d) \<Rightarrow> Inl Unmodelled
      | Some _ \<Rightarrow> Inl TypeError)"

text \<open>\<open>v.get(k, dflt)\<close> on a loaded value: only a dictionary has \<open>get\<close>.\<close>

definition py_get :: "pyval \<Rightarrow> pystr \<Rightarrow> pyval \<Rightarrow> exn + pyval" where
  "py_get v k dflt = (case v of PDict d \<Rightarrow> Inr (dict_get d k dflt) | _ \<Rightarrow> Inl AttributeError)"

text \<open>
  The test of line 291 and the lookup of line 292: the cached entry, if the paper is in
  both dictionaries; \<open>paper['url']\<close> is evaluated only when \<open>processed_dict\<close> is not
  empty.
\<close>

definition lookup_cached :: "pydict \<Rightarrow> pydict option \<Rightarrow> pydict option \<Rightarrow> exn + pyval option" where
  "lookup_cached paper processed_dict paper_cache =
     (case processed_dict of
        None \<Rightarrow> Inr None
      | Some pd \<Rightarrow>
          if pd = [] then Inr None
          else
            (case subscript paper (ascii ''url'') of
               Inl e \<Rightarrow> Inl e
             | Inr (PStr url) \<Rightarrow>
                 (if dict_has pd url then
                    (case paper_cache of
                       None \<Rightarrow> Inr None
                     | Some pc \<Rightarrow> if pc = [] then Inr None else Inr (map_of pc url))
                  else Inr None)
             | Inr _ \<Rightarrow> Inl Unmodelled))"

text \<open>Lines 309 to 313: the translations of every target language, from the cached entry.\<close>

fun restore_translations :: "pyval \<Rightarrow> pystr list \<Rightarrow> pydict \<Rightarrow> exn + pydict" where
  "restore_translations translations [] result = Inr result"
| "restore_translations translations (lang # langs) result =
     (case py_get translations (ascii ''descriptions'') (PDict []) of
        Inl e \<Rightarrow> Inl e
      | Inr ds \<Rightarrow>
          (case py_get ds lang (PStr []) of
             Inl e \<Rightarrow> Inl e
           | Inr d \<Rightarrow>
               (case py_get translations (ascii ''abstract_fulls'') (PDict []) of
                  Inl e \<Rightarrow> Inl e
                | Inr fs \<Rightarrow>
                    (case py_get fs lang (PStr []) of
                       Inl e \<Rightarrow> Inl e
                     | Inr f \<Rightarrow>
                         restore_translations translations langs
                           (dict_set (abs_key lang) f (dict_set (desc_key lang) d result))))))"

text \<open>Lines 294 to 314: the record rebuilt from a cached entry that is a dictionary.\<close>

definition restore_from_cache :: "config \<Rightarrow> world \<Rightarrow> pydict \<Rightarrow> pydict \<Rightarrow> exn + pydict" where
  "restore_from_cache cfg w paper cached_paper =
     (case title_prefix paper of
        Inl e \<Rightarrow> Inl e
      | Inr u \<Rightarrow>
          (case subscript cached_paper (ascii ''title'') of
             Inl e \<Rightarrow> Inl e
           | Inr title \<Rightarrow>
               (case subscript cached_paper (ascii ''url'') of
                  Inl e \<Rightarrow> Inl e
                | Inr url \<Rightarrow>
                    restore_translations
                      (dict_get cached_paper (ascii ''translations'') (PDict []))
                      (TARGET_LANGUAGES cfg)
                      [(ascii ''title'', title),
                       (ascii ''url'', url),
                       (ascii ''institution'',
                          dict_get cached_paper (ascii ''institution'') (PStr (ascii ''N/A''))),
                       (ascii ''abstract'', dict_get cached_paper (ascii ''abstract'') (PStr [])),
                       (ascii ''abstract_short'',
                          dict_get cached_paper (ascii ''abstract_short'') (PStr [])),
                       (ascii ''arxiv_abs'', dict_get cached_paper (ascii ''arxiv_abs'') PNone),
                       (ascii ''arxiv_pdf'', dict_get cached_paper (ascii ''arxiv_pdf'') PNone),
                       (ascii ''authors'', dict_get cached_paper (ascii ''authors'') (PList [])),
                       (ascii ''pub_date'',
                          dict_get paper (ascii ''pub_date'')
                            (dict_get cached_paper (ascii ''pub_date'') (PStr (now_text w))))])))"

text \<open>\<open>paper.update(...)\<close> of lines 321 to 327.\<close>

definition update_details :: "details \<Rightarrow> pydict \<Rightarrow> pydict" where
  "update_details d paper =
     dict_set (ascii ''authors'') (PList (map PStr (authors d)))
       (dict_set (ascii ''arxiv_pdf'') (case arxiv_pdf d of None \<Rightarrow> PNone | Some u \<Rightarrow> PStr u)
         (dict_set (ascii ''arxiv_abs'') (case arxiv_abs d of None \<Rightarrow> PNone | Some u \<Rightarrow> PStr u)
           (dict_set (ascii ''abstract_short'') (PStr (abstract_short d))
             (dict_set (ascii ''abstract'') (PStr (abstract_full d)) paper))))"

text \<open>
  The loops of lines 334 to 336 and 340 to 342: one translated field per target language.
\<close>

fun translate_field ::
  "world \<Rightarrow> (pystr \<Rightarrow> pystr) \<Rightarrow> pystr \<Rightarrow> pystr list \<Rightarrow> pydict \<times> nat \<Rightarrow> pydict \<times> nat" where
  "translate_field w key text [] (paper, t) = (paper, t)"
| "translate_field w key text (lang # langs) (paper, t) =
     (case translate_with_retry w t text lang 3 of
        (r, t') \<Rightarrow> translate_field w key text langs (dict_set (key lang) (PStr r) paper, t'))"

text \<open>The tests of lines 333 and 339.\<close>

definition translatable :: "pystr \<Rightarrow> bool" where
  "translatable text \<longleftrightarrow> text \<noteq> [] \<and> text \<noteq> ascii ''[Not available]''"

text \<open>Lines 332 to 342: the short abstract is translated, then the full abstract.\<close>

definition translate_abstracts :: "config \<Rightarrow> world \<Rightarrow> details \<Rightarrow> pydict \<times> nat \<Rightarrow> pydict \<times> nat" where
  "translate_abstracts cfg w d state =
     (let state' = (if translatable (abstract_short d)
                    then translate_field w desc_key (abstract_short d) (TARGET_LANGUAGES cfg) state
                    else state)
      in if translatable (abstract_full d)
         then translate_field w abs_key (abstract_full d) (TARGET_LANGUAGES cfg) state'
         else state')"

text \<open>
  The \<open>try\<close> block of lines 318 to 345: the processed paper, or the exception with the
  paper as it was when the exception was raised.
\<close>

definition fetch_and_translate :: "config \<Rightarrow> world \<Rightarrow> pydict \<Rightarrow> (exn \<times> pydict) + pydict" where
  "fetch_and_translate cfg w paper =
     (case subscript paper (ascii ''url'') of
        Inl e \<Rightarrow> Inl (e, paper)
      | Inr (PStr url) \<Rightarrow>
          (case fetch_with_retry cfg w 0 url of
             (Inl e, t) \<Rightarrow> Inl (e, paper)
           | (Inr html, t) \<Rightarrow>
               (let d = extract_abstracts w html;
                    paper1 = update_details d paper
                in case title_prefix paper1 of
                     Inl e \<Rightarrow> Inl (e, paper1)
                   | Inr u \<Rightarrow>
                       (let paper2 = fst (translate_abstracts cfg w d (paper1, t))
                        in case title_prefix paper2 of
                             Inl e \<Rightarrow> Inl (e, paper2)
                           | Inr u \<Rightarrow> Inr paper2)))
      | Inr _ \<Rightarrow> Inl (Unmodelled, paper))"

text \<open>\<open>str(e)\<close> for the exceptions whose text the handler can write.\<close>

fun exn_text :: "exn \<Rightarrow> pystr option" where
  "exn_text (FetchFailed msg) = Some msg"
| "exn_text (KeyError k) = Some (ascii [CHR 0x27] @ k @ ascii [CHR 0x27])"
| "exn_text e = None"

text \<open>
  The handler of lines 346 to 350: the log line evaluates \<open>paper['title'][:50]\<close> and may
  raise in its turn; otherwise the error marker goes into both abstracts.
\<close>

definition error_marker :: "pystr \<Rightarrow> pyval" where
  "error_marker msg = PStr (ascii ''[Error: '' @ msg @ ascii '']'')"

definition mark_failed :: "exn \<Rightarrow> pydict \<Rightarrow> exn + pydict" where
  "mark_failed e paper =
     (case title_prefix paper of
        Inl e' \<Rightarrow> Inl e'
      | Inr u \<Rightarrow>
          (case exn_text e of
             None \<Rightarrow> Inl Unmodelled
           | Some msg \<Rightarrow>
               Inr (dict_set (ascii ''abstract_short'') (error_marker msg)
                     (dict_set (ascii ''abstract'') (error_marker msg) paper))))"

text \<open>Lines 317 to 350: a new paper is processed fully.\<close>

definition process_new :: "config \<Rightarrow> world \<Rightarrow> pydict \<Rightarrow> exn + pydict" where
  "process_new cfg w paper =
     (case fetch_and_translate cfg w paper of
        Inr result \<Rightarrow> Inr result
      | Inl (e, paper') \<Rightarrow> mark_failed e paper')"

text \<open>
  \<open>process_paper\<close>. A cached entry that Python takes as true and that is not a dictionary
  makes \<open>cached_paper['title']\<close> raise, after the log line.
\<close>

definition process_paper ::
  "config \<Rightarrow> world \<Rightarrow> pydict \<Rightarrow> pydict option \<Rightarrow> pydict option \<Rightarrow> exn + pydict" where
  "process_paper cfg w paper processed_dict paper_cache =
     (case lookup_cached paper processed_dict paper_cache of
        Inl e \<Rightarrow> Inl e
      | Inr None \<Rightarrow> process_new cfg w paper
      | Inr (Some cached) \<Rightarrow>
          if \<not> truthy cached then process_new cfg w paper
          else
            (case cached of
               PDict cached_paper \<Rightarrow> restore_from_cache cfg w paper cached_paper
             | _ \<Rightarrow> (case title_prefix paper of Inl e \<Rightarrow> Inl e | Inr u \<Rightarrow> Inl TypeError)))"

section \<open>The main scraping function\<close>

text \<open>
  Lines 387 to 396: the publication date of one listed paper, by its position. A paper in
  \<open>processed_dict\<close> takes the date of its cached entry, if that has one.
\<close>

definition assign_pub_date ::
  "world \<Rightarrow> pydict option \<Rightarrow> pydict option \<Rightarrow> nat \<Rightarrow> pydict \<Rightarrow> exn + pydict" where
  "assign_pub_date w processed_dict paper_cache i paper =
     (case processed_dict of
        None \<Rightarrow> Inr (dict_set (ascii ''pub_date'') (PStr (pub_date_at w i)) paper)
      | Some pd \<Rightarrow>
          (case subscript paper (ascii ''url'') of
             Inl e \<Rightarrow> Inl e
           | Inr (PStr url) \<Rightarrow>
               if \<not> dict_has pd url
               then Inr (dict_set (ascii ''pub_date'') (PStr (pub_date_at w i)) paper)
               else
                 (case paper_cache of
                    None \<Rightarrow> Inl AttributeError
                  | Some pc \<Rightarrow>
                      (case map_of pc url of
                         None \<Rightarrow> Inr paper
                       | Some cached \<Rightarrow>
                           if \<not> truthy cached then Inr paper
                           else
                             (case cached of
                                PDict cached_paper \<Rightarrow>
                                  (case map_of cached_paper (ascii ''pub_date'') of
                                     None \<Rightarrow> Inr paper
                                   | Some d \<Rightarrow> Inr (dict_set (ascii ''pub_date'') d paper))
                              | PStr s \<Rightarrow>
                                  if contains s (ascii ''pub_date'') then Inl TypeError
                                  else Inr paper
                              | PList xs \<Rightarrow>
                                  if PStr (ascii ''pub_date'') \<in> set xs then Inl TypeError
                                  else Inr paper
                              | _ \<Rightarrow> Inl TypeError)))
           | Inr _ \<Rightarrow> Inl Unmodelled))"

fun assign_pub_dates ::
  "world \<Rightarrow> pydict option \<Rightarrow> pydict option \<Rightarrow> nat \<Rightarrow> pydict list \<Rightarrow> exn + pydict list" where
  "assign_pub_dates w processed_dict paper_cache i [] = Inr []"
| "assign_pub_dates w processed_dict paper_cache i (paper # rest) =
     (case assign_pub_date w processed_dict paper_cache i paper of
        Inl e \<Rightarrow> Inl e
      | Inr paper' \<Rightarrow>
          (case assign_pub_dates w processed_dict paper_cache (Suc i) rest of
             Inl e \<Rightarrow> Inl e
           | Inr rest' \<Rightarrow> Inr (paper' # rest')))"

text \<open>
  Lines 369 to 396: the listing is fetched, parsed, cut to \<open>MAX_PAPERS\<close> and dated.
\<close>

definition listing :: "config \<Rightarrow> world \<Rightarrow> pydict option \<Rightarrow> pydict option \<Rightarrow> exn + pydict list" where
  "listing cfg w processed_dict paper_cache =
     (case fst (fetch_with_retry cfg w 0 (BASE_URL cfg)) of
        Inl e \<Rightarrow> Inl e
      | Inr html \<Rightarrow>
          (case feed new_extractor (html_events w html) of
             Inl e \<Rightarrow> Inl e
           | Inr parser \<Rightarrow>
               assign_pub_dates w processed_dict paper_cache 0
                 (slice_to (papers parser) (MAX_PAPERS cfg))))"

text \<open>
  Lines 409 to 417, for one finished task: the result of \<open>process_paper\<close> when it and the
  log line after it raise nothing, the listed paper otherwise; the log line of the handler
  may raise in its turn, which ends \<open>scrape_papers\<close>.
\<close>

definition task_result ::
  "config \<Rightarrow> world \<Rightarrow> pydict option \<Rightarrow> pydict option \<Rightarrow> pydict \<Rightarrow> exn + pydict" where
  "task_result cfg w processed_dict paper_cache paper =
     (case process_paper cfg w paper processed_dict paper_cache of
        Inl Unmodelled \<Rightarrow> Inl Unmodelled
      | Inl e \<Rightarrow> (case title_prefix paper of Inl e' \<Rightarrow> Inl e' | Inr u \<Rightarrow> Inr paper)
      | Inr result \<Rightarrow>
          (case title_prefix result of
             Inr u \<Rightarrow> Inr result
           | Inl e \<Rightarrow> (case title_prefix paper of Inl e' \<Rightarrow> Inl e' | Inr u \<Rightarrow> Inr paper)))"

text \<open>
  The loop over \<open>as_completed\<close>: \<open>order\<close> lists the task indices as the tasks finish, and
  each result goes to the slot of its index. \<open>task i\<close> is the world of task \<open>i\<close>.
\<close>

fun collect ::
  "(nat \<Rightarrow> exn + pydict) \<Rightarrow> nat list \<Rightarrow> pydict option list \<Rightarrow> exn + pydict option list" where
  "collect slot [] results = Inr results"
| "collect slot (index # order) results =
     (case slot index of
        Inl e \<Rightarrow> Inl e
      | Inr r \<Rightarrow> collect slot order (results[index := Some r]))"

definition slot_of ::
  "config \<Rightarrow> (nat \<Rightarrow> world) \<Rightarrow> pydict option \<Rightarrow> pydict option \<Rightarrow> pydict list \<Rightarrow> nat \<Rightarrow> exn + pydict" where
  "slot_of cfg task processed_dict paper_cache listed index =
     (if index < length listed
      then task_result cfg (task index) processed_dict paper_cache (listed ! index)
      else Inl Unmodelled)"

text \<open>\<open>scrape_papers\<close>: the slots in listing order, reversed.\<close>

definition scrape_papers ::
  "config \<Rightarrow> world \<Rightarrow> (nat \<Rightarrow> world) \<Rightarrow> nat list \<Rightarrow> pydict option \<Rightarrow> pydict option
     \<Rightarrow> exn + pydict option list" where
  "scrape_papers cfg w task order processed_dict paper_cache =
     (case listing cfg w processed_dict paper_cache of
        Inl e \<Rightarrow> Inl e
      | Inr listed \<Rightarrow>
          if listed = [] then Inr []
          else
            (case collect (slot_of cfg task processed_dict paper_cache listed) order
                    (replicate (length listed) None) of
               Inl e \<Rightarrow> Inl e
             | Inr results \<Rightarrow> Inr (rev results)))"

section \<open>Example data\<close>

text \<open>A configuration with a capacity of one record, two listed papers and an old cache.\<close>

definition example_cfg :: config where
  "example_cfg = \<lparr>BASE_URL = ascii ''https://huggingface.co/papers'', MAX_PAPERS = 100,
     MAX_RETRIES = 3, MAX_PROCESSED_RECORDS = 1, CACHE_VERSION = 1,
     TARGET_LANGUAGES = [ascii ''zh-CN'']\<rparr>"

definition url_a :: pystr where
  "url_a = ascii ''https://huggingface.co/papers/2401.00001''"

definition url_b :: pystr where
  "url_b = ascii ''https://huggingface.co/papers/2401.00002''"

definition paper_a :: pydict where
  "paper_a = [(ascii ''url'', PStr url_a), (ascii ''title'', PStr (ascii ''First paper''))]"

definition paper_b :: pydict where
  "paper_b = [(ascii ''url'', PStr url_b), (ascii ''title'', PStr (ascii ''Second paper''))]"

definition old_timestamps :: pydict where
  "old_timestamps = [(url_a, PStr (ascii ''2024-01-01T00:00:00+00:00''))]"

definition old_cache :: pydict where
  "old_cache = [(url_a, PDict [(ascii ''title'', PStr (ascii ''First paper'')),
                               (ascii ''url'', PStr url_a)])]"

definition later :: pystr where
  "later = ascii ''2024-01-02T00:00:00+00:00''"

text \<open>
  A listing of three articles: the first with a link, a title and an institution, the
  second with a link that has no target, the third with a link and a title. The two
  records the extractor emits for it, and a scratch record that has a title and no url.
\<close>

definition example_events :: "event list" where
  "example_events =
     [StartTag (ascii ''article'') [], StartTag (ascii ''h3'') [],
      StartTag (ascii ''a'') [(ascii ''href'', Some (ascii ''/papers/2401.00001''))],
      Data (ascii ''First paper''), EndTag (ascii ''a''), EndTag (ascii ''h3''),
      StartTag (ascii ''span'') [(ascii ''class'', Some (ascii ''truncate font-medium''))],
      Data (ascii '' MIT   CSAIL ''), EndTag (ascii ''span''), EndTag (ascii ''article''),
      StartTag (ascii ''article'') [], StartTag (ascii ''h3'') [],
      StartTag (ascii ''a'') [(ascii ''href'', None)],
      Data (ascii ''No link''), EndTag (ascii ''a''), EndTag (ascii ''h3''),
      EndTag (ascii ''article''),
      StartTag (ascii ''article'') [], StartTag (ascii ''h3'') [],
      StartTag (ascii ''a'') [(ascii ''href'', Some (ascii ''/papers/2401.00002''))],
      Data (ascii ''Second paper''), EndTag (ascii ''a''), EndTag (ascii ''h3''),
      EndTag (ascii ''article'')]"

definition listed_a :: pydict where
  "listed_a = [(ascii ''url'', PStr url_a), (ascii ''title'', PStr (ascii ''First paper'')),
               (ascii ''institution'', PStr (ascii ''MIT CSAIL''))]"

definition listed_b :: pydict where
  "listed_b = [(ascii ''url'', PStr url_b), (ascii ''title'', PStr (ascii ''Second paper'')),
               (ascii ''institution'', PStr (ascii ''N/A''))]"

definition scratch_without_url :: extractor where
  "scratch_without_url =
     new_extractor\<lparr>in_article := True,
                   current_paper := Some [(ascii ''title'', PStr (ascii ''No link''))]\<rparr>"

text \<open>
  A detail page without the container of the short abstract, with a heading
  \<open>Abstract\<close> and two paragraphs; a page without any heading; a page with a short
  abstract and one paragraph only.
\<close>

definition page_two_paragraphs :: pystr where
  "page_two_paragraphs = ascii ''<h2>Abstract</h2><p>AI</p><p>Full text</p><h2>''"

definition page_without_heading :: pystr where
  "page_without_heading = ascii ''<p>no heading</p>''"

definition page_one_paragraph :: pystr where
  "page_one_paragraph =
     ascii ''<div class=\"pb-8 pr-4 md:pr-16\">Short</div><h2>Abstract</h2><p>AI</p><h2>''"

text \<open>
  A world in which the first request fails and the second returns the page with two
  paragraphs, and in which the translation backend always fails; the same world without
  network; the tasks of a run in which every task is without network.
\<close>

definition example_world :: world where
  "example_world =
     \<lparr>http_get = (\<lambda>n url. if n = 0 then None else Some page_two_paragraphs),
      translate = (\<lambda>n s l. None),
      html_events = (\<lambda>html. example_events),
      unicode_digit = (\<lambda>c. 48 \<le> c \<and> c \<le> 57),
      pub_date_at = (\<lambda>i. if i = 0 then ascii ''Mon, 01 Jan 2024 00:00:00 GMT''
                          else ascii ''Mon, 01 Jan 2024 00:00:01 GMT''),
      now_text = ascii ''Mon, 01 Jan 2024 00:00:00 GMT''\<rparr>"

definition offline_world :: world where
  "offline_world = example_world\<lparr>http_get := (\<lambda>n url. None)\<rparr>"

definition example_tasks :: "nat \<Rightarrow> world" where
  "example_tasks i = offline_world"

text \<open>
  A cache whose entry for the first paper holds one translated description and no
  translated full abstract, and a cache whose entry has lost its title.
\<close>

definition cached_entry_a :: pydict where
  "cached_entry_a =
     [(ascii ''title'', PStr (ascii ''First paper'')),
      (ascii ''url'', PStr url_a),
      (ascii ''translations'', PDict
         [(ascii ''descriptions'', PDict [(ascii ''zh-CN'', PStr (ascii ''translated''))]),
          (ascii ''abstract_fulls'', PDict [])])]"

definition example_cache :: pydict where
  "example_cache = [(url_a, PDict cached_entry_a)]"

definition broken_cache :: pydict where
  "broken_cache = [(url_a, PDict [(ascii ''url'', PStr url_a)])]"

text \<open>
  The second listed paper with its publication date, and with the error marker of a
  failed fetch in both abstracts.
\<close>

definition stamped_b :: pydict where
  "stamped_b = listed_b @ [(ascii ''pub_date'', PStr (ascii ''Mon, 01 Jan 2024 00:00:01 GMT''))]"

definition fetch_failed_b :: pystr where
  "fetch_failed_b =
     ascii ''[Error: Failed to fetch https://huggingface.co/papers/2401.00002 after 3 attempts]''"

definition failed_b :: pydict where
  "failed_b = stamped_b @ [(ascii ''abstract'', PStr fetch_failed_b),
                           (ascii ''abstract_short'', PStr fetch_failed_b)]"

section \<open>Properties of the cache\<close>

lemma ascii_eq_iff [simp]: "ascii s = ascii t \<longleftrightarrow> s = t"
  by (simp add: ascii_def inj_map_eq_map inj_def)

lemma map_of_dict_set: "map_of (dict_set k v d) = (map_of d)(k \<mapsto> v)"
  by (simp add: dict_set_def update_conv')

lemma dict_has_dict_set: "dict_has (dict_set k v d) k' \<longleftrightarrow> k' = k \<or> dict_has d k'"
  by (simp add: dict_has_def map_of_dict_set)

lemma distinct_dict_set: "distinct (map fst d) \<Longrightarrow> distinct (map fst (dict_set k v d))"
  by (simp add: dict_set_def distinct_update)

lemma paper_urls_Cons:
  "map_of paper (ascii ''url'') = Some (PStr url) \<Longrightarrow>
   set (paper_urls (paper # listed)) = insert url (set (paper_urls listed))"
  by (simp add: paper_urls_def List.map_filter_simps)

text \<open>
  What the insertion loop does to an identity: nothing when it is in the timestamp map
  already or is not listed, and a new timestamp and entry otherwise.
\<close>

lemma merge_papers_effect:
  "merge_papers cfg now listed pd pc = Inr (pd', pc') \<Longrightarrow>
     (\<forall>url. dict_has pd url \<longrightarrow> map_of pd' url = map_of pd url \<and> map_of pc' url = map_of pc url)
   \<and> (\<forall>url. \<not> dict_has pd url \<longrightarrow> url \<notin> set (paper_urls listed) \<longrightarrow>
          map_of pd' url = map_of pd url \<and> map_of pc' url = map_of pc url)
   \<and> (\<forall>url. \<not> dict_has pd url \<longrightarrow> url \<in> set (paper_urls listed) \<longrightarrow>
          map_of pd' url = Some (PStr now) \<and> dict_has pc' url)"
proof (induction listed arbitrary: pd pc)
  case Nil
  then show ?case by (simp add: paper_urls_def List.map_filter_simps)
next
  case (Cons paper listed)
  show ?case
  proof (cases "map_of paper (ascii ''url'')")
    case None
    with Cons.prems show ?thesis by (simp add: subscript_def)
  next
    case (Some u)
    show ?thesis
    proof (cases u)
      case (PStr url)
      have urls: "set (paper_urls (paper # listed)) = insert url (set (paper_urls listed))"
        using Some PStr by (simp add: paper_urls_Cons)
      show ?thesis
      proof (cases "dict_has pd url")
        case True
        with Cons.prems Some PStr
        have "merge_papers cfg now listed pd pc = Inr (pd', pc')"
          by (simp add: subscript_def)
        from Cons.IH [OF this] True show ?thesis
          unfolding urls by auto
      next
        case False
        with Cons.prems Some PStr obtain entry where
          rec: "merge_papers cfg now listed (dict_set url (PStr now) pd) (dict_set url entry pc)
                = Inr (pd', pc')"
          by (auto simp: subscript_def split: sum.splits)
        note ih = Cons.IH [OF rec]
        let ?pd1 = "dict_set url (PStr now) pd" and ?pc1 = "dict_set url entry pc"
        have ih1: "dict_has ?pd1 u \<Longrightarrow>
            map_of pd' u = map_of ?pd1 u \<and> map_of pc' u = map_of ?pc1 u" for u
          using ih by blast
        have ih2: "\<not> dict_has ?pd1 u \<Longrightarrow> u \<notin> set (paper_urls listed) \<Longrightarrow>
            map_of pd' u = map_of ?pd1 u \<and> map_of pc' u = map_of ?pc1 u" for u
          using ih by blast
        have ih3: "\<not> dict_has ?pd1 u \<Longrightarrow> u \<in> set (paper_urls listed) \<Longrightarrow>
            map_of pd' u = Some (PStr now) \<and> dict_has pc' u" for u
          using ih by blast
        have a: "map_of pd' u = map_of pd u \<and> map_of pc' u = map_of pc u" if "dict_has pd u" for u
        proof -
          from that False have "u \<noteq> url" by auto
          with ih1 [of u] that show ?thesis
            by (simp add: dict_has_dict_set map_of_dict_set)
        qed
        have b: "map_of pd' u = map_of pd u \<and> map_of pc' u = map_of pc u"
          if "\<not> dict_has pd u" "u \<notin> insert url (set (paper_urls listed))" for u
          using ih2 [of u] that by (simp add: dict_has_dict_set map_of_dict_set)
        have c: "map_of pd' u = Some (PStr now) \<and> dict_has pc' u"
          if "\<not> dict_has pd u" "u \<in> insert url (set (paper_urls listed))" for u
        proof (cases "u = url")
          case True
          with ih1 [of url] show ?thesis
            by (simp add: dict_has_dict_set map_of_dict_set dict_has_def)
        next
          case False
          with ih3 [of u] that show ?thesis
            by (simp add: dict_has_dict_set)
        qed
        show ?thesis
          unfolding urls using a b c by blast
      qed
    qed (use Cons.prems Some in \<open>simp_all add: subscript_def\<close>)
  qed
qed

lemma merge_papers_distinct:
  "merge_papers cfg now listed pd pc = Inr (pd', pc') \<Longrightarrow> distinct (map fst pd) \<Longrightarrow>
   distinct (map fst pd')"
proof (induction listed arbitrary: pd pc)
  case Nil
  then show ?case by simp
next
  case (Cons paper listed)
  then show ?case
    by (auto simp: subscript_def distinct_dict_set
        split: sum.splits option.splits pyval.splits if_splits)
qed

text \<open>
  Claim C7. The insertion loop leaves the timestamp and the cache entry of every identity
  that is already in the timestamp map as they were; an identity whose timestamp or entry
  changes was absent from the timestamp map before and is the identity of a listed paper.
\<close>

theorem merge_papers_frame:
  assumes "merge_papers cfg current_time listed processed_dict paper_cache = Inr (pd', pc')"
  shows "(\<forall>url. dict_has processed_dict url \<longrightarrow>
            map_of pd' url = map_of processed_dict url \<and> map_of pc' url = map_of paper_cache url)
       \<and> (\<forall>url. map_of pd' url \<noteq> map_of processed_dict url \<or> map_of pc' url \<noteq> map_of paper_cache url
            \<longrightarrow> \<not> dict_has processed_dict url \<and> url \<in> set (paper_urls listed))"
  using merge_papers_effect [OF assms] by blast

lemma example_merge:
  "merge_papers example_cfg later [paper_a, paper_b] old_timestamps old_cache =
     Inr (old_timestamps @ [(url_b, PStr later)],
          old_cache @ [(url_b, projr (cache_entry example_cfg paper_b))])"
  by code_simp

theorem merge_papers_frame_witness:
  "merge_papers example_cfg later [paper_a, paper_b] old_timestamps old_cache =
     Inr (old_timestamps @ [(url_b, PStr later)],
          old_cache @ [(url_b, projr (cache_entry example_cfg paper_b))])
   \<and> dict_has old_timestamps url_a
   \<and> map_of (old_timestamps @ [(url_b, PStr later)]) url_a = map_of old_timestamps url_a
   \<and> map_of (old_cache @ [(url_b, projr (cache_entry example_cfg paper_b))]) url_a
       = map_of old_cache url_a"
proof -
  have has: "dict_has old_timestamps url_a"
    by (simp add: dict_has_def old_timestamps_def)
  from merge_papers_frame [OF example_merge] has example_merge show ?thesis
    by blast
qed

lemma map_of_map_filter_keys:
  "map_of (List.map_filter (\<lambda>url. map_option (Pair url) (m url)) ks) k =
     (if k \<in> set ks then m k else None)"
  by (induction ks) (auto simp: List.map_filter_simps split: option.splits)

lemma timestamp_items_Some:
  "timestamp_items d = Some items \<Longrightarrow> d = map (\<lambda>(k, t). (k, PStr t)) items"
  by (induction d arbitrary: items rule: timestamp_items.induct) auto

lemma set_sorted_desc: "set (sorted_desc items) = set items"
  by (simp add: sorted_desc_def)

lemma sorted_desc_sorted: "sorted_wrt (\<lambda>a b. snd b \<le> snd a) (sorted_desc items)"
proof -
  have "sorted (map snd (sort_key snd (rev items)))"
    by (rule sorted_sort_key)
  then have "sorted_wrt (\<lambda>a b. snd a \<le> snd b) (sort_key snd (rev items))"
    by (simp add: sorted_wrt_map)
  then show ?thesis
    by (simp add: sorted_desc_def sorted_wrt_rev)
qed

lemma sorted_wrt_take_drop:
  assumes "sorted_wrt R xs" "x \<in> set (take n xs)" "y \<in> set (drop n xs)"
  shows "R x y"
proof -
  have "sorted_wrt R (take n xs @ drop n xs)" using assms(1) by simp
  then show ?thesis using assms(2,3) unfolding sorted_wrt_append by blast
qed

lemma slice_to_take: "\<exists>m. slice_to xs k = take m xs"
  by (auto simp: slice_to_def)

lemma map_of_items:
  assumes "distinct (map fst items)"
  shows "map_of (map (\<lambda>(k, t). (k, PStr t)) items) u = Some (PStr t) \<longleftrightarrow> (u, t) \<in> set items"
proof -
  have "map_of (map (\<lambda>(k, t). (k, PStr t)) items) u = map_option PStr (map_of items u)"
    by (induction items) auto
  then show ?thesis using assms by (auto simp: map_of_eq_Some_iff)
qed

lemma prune_cache_within:
  "int (length pd) \<le> MAX_PROCESSED_RECORDS cfg \<Longrightarrow> prune_cache cfg pd pc = Inr (pd, pc)"
  by (simp add: prune_cache_def)

lemma prune_cache_subset:
  assumes "prune_cache cfg pd pc = Inr (pd', pc')"
  shows "map_of pd' k = Some v \<Longrightarrow> map_of pd k = Some v"
    and "map_of pc' k = Some v \<Longrightarrow> map_of pc k = Some v"
  using assms
  by (auto simp: prune_cache_def Let_def map_of_map_filter_keys split: if_splits option.splits)

text \<open>
  The clean-up keeps the most recent timestamps: a dropped identity is never more recent
  than a kept one.
\<close>

lemma prune_cache_order:
  assumes pr: "prune_cache cfg pd pc = Inr (pd', pc')" and dist: "distinct (map fst pd)"
    and u: "map_of pd u = Some (PStr t)" and gone: "\<not> dict_has pd' u"
    and k: "map_of pd' k = Some (PStr s)"
  shows "t \<le> s"
proof (cases "int (length pd) > MAX_PROCESSED_RECORDS cfg")
  case False
  with pr have "pd' = pd" by (simp add: prune_cache_def)
  with u gone show ?thesis by (simp add: dict_has_def)
next
  case True
  with pr obtain items where items: "timestamp_items pd = Some items"
    by (auto simp: prune_cache_def split: option.splits)
  obtain m where m: "slice_to (sorted_desc items) (MAX_PROCESSED_RECORDS cfg) = take m (sorted_desc items)"
    using slice_to_take by blast
  let ?kept = "take m (sorted_desc items)"
  have pd_items: "pd = map (\<lambda>(k, t). (k, PStr t)) items"
    using items by (rule timestamp_items_Some)
  have "map fst pd = map fst items"
    unfolding pd_items by (induction items) auto
  with dist have dist_items: "distinct (map fst items)" by simp
  have look: "map_of pd x = Some (PStr y) \<longleftrightarrow> (x, y) \<in> set items" for x y
    unfolding pd_items using dist_items by (rule map_of_items)
  have pd': "map_of pd' x = (if x \<in> fst ` set ?kept then map_of pd x else None)" for x
  proof -
    have "pd' = List.map_filter (\<lambda>url. map_option (Pair url) (map_of pd url))
                  (remdups (map fst ?kept))"
      using pr True items m by (simp add: prune_cache_def Let_def)
    then show ?thesis
      by (simp add: map_of_map_filter_keys)
  qed
  have split: "set items = set ?kept \<union> set (drop m (sorted_desc items))"
    using set_append [of ?kept "drop m (sorted_desc items)"] by (simp add: set_sorted_desc)
  have "(u, t) \<in> set items" using u look by simp
  moreover have "(u, t) \<notin> set ?kept"
  proof
    assume "(u, t) \<in> set ?kept"
    then have "u \<in> fst ` set ?kept" by force
    with pd' [of u] u gone show False by (simp add: dict_has_def)
  qed
  ultimately have in_drop: "(u, t) \<in> set (drop m (sorted_desc items))"
    using split by blast
  have "k \<in> fst ` set ?kept" and "map_of pd k = Some (PStr s)"
    using k pd' [of k] by (auto split: if_splits)
  then obtain s' where s': "(k, s') \<in> set ?kept" and ks: "(k, s) \<in> set items"
    using look by auto
  from s' have "(k, s') \<in> set items" using split by blast
  with ks dist_items have "s' = s"
    by (meson eq_key_imp_eq_value)
  with s' have in_take: "(k, s) \<in> set ?kept" by simp
  from sorted_wrt_take_drop [OF sorted_desc_sorted in_take in_drop]
  show ?thesis by simp
qed

text \<open>
  Claim C1, as stated, fails: with a capacity of one record, an identity that is in the
  cache and is listed again keeps its old timestamp, the new identity gets the current
  time, and the clean-up drops the old one.
\<close>

theorem merge_then_prune_drops_remerged:
  "dict_has old_timestamps url_a
   \<and> url_a \<in> set (paper_urls [paper_a, paper_b])
   \<and> \<not> isl (merge_then_prune example_cfg later [paper_a, paper_b] old_timestamps old_cache)
   \<and> \<not> dict_has
         (fst (projr (merge_then_prune example_cfg later [paper_a, paper_b] old_timestamps old_cache)))
         url_a"
  by code_simp

text \<open>
  Claim C1, amended. The insertion loop does not refresh the timestamp of an identity that
  is in the timestamp map already. The clean-up removes nothing while the merged timestamp
  map has at most \<open>MAX_PROCESSED_RECORDS\<close> entries; when it removes an identity, the
  timestamp of that identity is at most the timestamp of every identity it keeps.
\<close>

theorem merge_then_prune_keeps_most_recent:
  assumes "merge_papers cfg current_time listed processed_dict paper_cache = Inr (pdm, pcm)"
    and "merge_then_prune cfg current_time listed processed_dict paper_cache = Inr (pd', pc')"
    and "distinct (map fst processed_dict)"
  shows "(\<forall>url. dict_has processed_dict url \<longrightarrow> map_of pdm url = map_of processed_dict url)
       \<and> (int (length pdm) \<le> MAX_PROCESSED_RECORDS cfg \<longrightarrow> pd' = pdm \<and> pc' = pcm)
       \<and> (\<forall>url t kept s.
            map_of pdm url = Some (PStr t) \<and> \<not> dict_has pd' url \<and> map_of pd' kept = Some (PStr s)
            \<longrightarrow> t \<le> s)"
proof -
  have pr: "prune_cache cfg pdm pcm = Inr (pd', pc')"
    using assms(1,2) by (simp add: merge_then_prune_def)
  have dist: "distinct (map fst pdm)"
    using assms(1,3) by (rule merge_papers_distinct)
  have "\<forall>url. dict_has processed_dict url \<longrightarrow> map_of pdm url = map_of processed_dict url"
    using merge_papers_effect [OF assms(1)] by blast
  moreover have "int (length pdm) \<le> MAX_PROCESSED_RECORDS cfg \<longrightarrow> pd' = pdm \<and> pc' = pcm"
    using pr prune_cache_within [of pdm cfg pcm] by auto
  moreover have "t \<le> s"
    if "map_of pdm url = Some (PStr t)" "\<not> dict_has pd' url" "map_of pd' kept = Some (PStr s)"
    for url t kept s
    using prune_cache_order [OF pr dist that] .
  ultimately show ?thesis by blast
qed

lemma example_merge_then_prune:
  "merge_then_prune example_cfg later [paper_a, paper_b] old_timestamps old_cache =
     Inr ([(url_b, PStr later)], [(url_b, projr (cache_entry example_cfg paper_b))])"
  by code_simp

theorem merge_then_prune_keeps_most_recent_witness:
  "merge_papers example_cfg later [paper_a, paper_b] old_timestamps old_cache =
     Inr (old_timestamps @ [(url_b, PStr later)],
          old_cache @ [(url_b, projr (cache_entry example_cfg paper_b))])
   \<and> merge_then_prune example_cfg later [paper_a, paper_b] old_timestamps old_cache =
     Inr ([(url_b, PStr later)], [(url_b, projr (cache_entry example_cfg paper_b))])
   \<and> distinct (map fst old_timestamps)
   \<and> map_of (old_timestamps @ [(url_b, PStr later)]) url_a
       = Some (PStr (ascii ''2024-01-01T00:00:00+00:00''))
   \<and> \<not> dict_has [(url_b, PStr later)] url_a
   \<and> ascii ''2024-01-01T00:00:00+00:00'' \<le> later"
proof -
  have d: "distinct (map fst old_timestamps)"
    by (simp add: old_timestamps_def)
  have u: "map_of (old_timestamps @ [(url_b, PStr later)]) url_a
             = Some (PStr (ascii ''2024-01-01T00:00:00+00:00''))"
    by (simp add: old_timestamps_def)
  have g: "\<not> dict_has [(url_b, PStr later)] url_a"
    by (simp add: dict_has_def url_a_def url_b_def)
  have k: "map_of [(url_b, PStr later)] url_b = Some (PStr later)"
    by simp
  from merge_then_prune_keeps_most_recent [OF example_merge example_merge_then_prune d] u g k
  have "ascii ''2024-01-01T00:00:00+00:00'' \<le> later"
    by blast
  with example_merge example_merge_then_prune d u g show ?thesis
    by blast
qed

text \<open>
  Claim C6. A cache whose timestamp map has at most \<open>MAX_PROCESSED_RECORDS\<close> entries,
  written by \<open>save_processed_papers\<close> (the write succeeding) and read back by
  \<open>load_processed_papers\<close>, comes back as the same two dictionaries. A document whose
  version differs from \<open>CACHE_VERSION\<close> (the version taken as 1 when the document has
  none) loads as two empty dictionaries, whatever else it holds.
\<close>

theorem cache_round_trip:
  "(int (length processed_dict) \<le> MAX_PROCESSED_RECORDS cfg \<longrightarrow>
      (\<exists>f. save_processed_papers cfg current_time None [] processed_dict paper_cache
              = Inr (f, processed_dict, paper_cache)
          \<and> load_processed_papers cfg f = (PDict processed_dict, PDict paper_cache)))
   \<and> (ne_int (dict_get d (ascii ''version'') (PInt 1)) (CACHE_VERSION cfg) \<longrightarrow>
        load_processed_papers cfg (Json (PDict d)) = (PDict [], PDict []))"
proof -
  have "load_processed_papers cfg
          (persist_cache cfg current_time None processed_dict paper_cache)
        = (PDict processed_dict, PDict paper_cache)"
    by (simp add: load_processed_papers_def persist_cache_def dict_get_def)
  then show ?thesis
    by (simp add: save_processed_papers_def merge_then_prune_def prune_cache_within
        load_processed_papers_def)
qed

theorem cache_round_trip_witness:
  "int (length old_timestamps) \<le> MAX_PROCESSED_RECORDS example_cfg
   \<and> (\<exists>f. save_processed_papers example_cfg later None [] old_timestamps old_cache
              = Inr (f, old_timestamps, old_cache)
          \<and> load_processed_papers example_cfg f = (PDict old_timestamps, PDict old_cache))
   \<and> ne_int (dict_get [(ascii ''version'', PInt 2), (ascii ''papers'', PDict old_timestamps)]
               (ascii ''version'') (PInt 1)) (CACHE_VERSION example_cfg)
   \<and> load_processed_papers example_cfg
       (Json (PDict [(ascii ''version'', PInt 2), (ascii ''papers'', PDict old_timestamps)]))
       = (PDict [], PDict [])"
proof -
  have a: "int (length old_timestamps) \<le> MAX_PROCESSED_RECORDS example_cfg"
    by (simp add: old_timestamps_def example_cfg_def)
  have b: "ne_int (dict_get [(ascii ''version'', PInt 2), (ascii ''papers'', PDict old_timestamps)]
               (ascii ''version'') (PInt 1)) (CACHE_VERSION example_cfg)"
    by (simp add: dict_get_def example_cfg_def)
  from cache_round_trip
    [of old_timestamps example_cfg later old_cache
        "[(ascii ''version'', PInt 2), (ascii ''papers'', PDict old_timestamps)]"]
    a b show ?thesis
    by blast
qed

section \<open>Properties of the extractor\<close>

lemma rx_whitespace_run:
  "rx whitespace_run s g =
     (if takeWhile is_space s = [] then None else Some (dropWhile is_space s, g))"
proof (cases "takeWhile is_space s = []")
  case True
  then show ?thesis by (simp add: whitespace_run_def counts_def)
next
  case False
  then obtain n where n: "length (takeWhile is_space s) = Suc n"
    by (cases "takeWhile is_space s") auto
  have "drop (Suc n) s = dropWhile is_space s"
    using n by (metis dropWhile_eq_drop)
  then show ?thesis using False n
    by (simp add: whitespace_run_def counts_def)
qed

lemma collapse_Nil [simp]: "re_sub whitespace_run r [] = []"
  by (simp add: rx_whitespace_run)

lemma collapse_Cons:
  "re_sub whitespace_run r (c # cs) =
     (if is_space c then r @ re_sub whitespace_run r (dropWhile is_space cs)
      else c # re_sub whitespace_run r cs)"
proof -
  have "length (dropWhile is_space cs) < Suc (length cs)"
    by (simp add: le_imp_less_Suc length_dropWhile_le)
  then show ?thesis
    by (simp add: rx_whitespace_run)
qed

lemma is_space_32 [simp]: "is_space 32"
  by (simp add: is_space_def)

lemma tidy_collapse: "tidy (re_sub whitespace_run (ascii '' '') s)"
proof (induction s rule: length_induct)
  case (1 s)
  show ?case
  proof (cases s)
    case Nil
    then show ?thesis by (simp add: tidy_def rx_whitespace_run)
  next
    case (Cons c cs)
    show ?thesis
    proof (cases "is_space c")
      case True
      let ?r = "dropWhile is_space cs"
      have "length ?r < length s"
        using Cons by (simp add: le_imp_less_Suc length_dropWhile_le)
      with 1 have ih: "tidy (re_sub whitespace_run (ascii '' '') ?r)" by blast
      have hd: "\<not> is_space (hd (re_sub whitespace_run (ascii '' '') ?r))"
        if ne: "re_sub whitespace_run (ascii '' '') ?r \<noteq> []"
      proof (cases ?r)
        case Nil
        have "re_sub whitespace_run (ascii '' '') ?r = []"
          unfolding Nil by (rule collapse_Nil)
        with ne show ?thesis by blast
      next
        case (Cons d ds)
        then have "\<not> is_space d"
          by (metis hd_dropWhile list.distinct(1) list.sel(1))
        then show ?thesis unfolding Cons by (simp add: collapse_Cons del: re_sub.simps)
      qed
      show ?thesis
        using ih hd True unfolding Cons
        by (auto simp: collapse_Cons tidy_def ascii_def successively_Cons simp del: re_sub.simps)
    next
      case False
      have "length cs < length s" using Cons by simp
      with 1 have "tidy (re_sub whitespace_run (ascii '' '') cs)" by blast
      then show ?thesis using False unfolding Cons
        by (auto simp: collapse_Cons tidy_def successively_Cons simp del: re_sub.simps)
    qed
  qed
qed

lemma collapse_tidy: "tidy s \<Longrightarrow> re_sub whitespace_run (ascii '' '') s = s"
proof (induction s rule: length_induct)
  case (1 s)
  show ?case
  proof (cases s)
    case Nil
    then show ?thesis by (simp add: rx_whitespace_run)
  next
    case (Cons c cs)
    have tcs: "tidy cs" using "1.prems" Cons by (auto simp: tidy_def successively_Cons)
    have "length cs < length s" using Cons by simp
    with 1 tcs have ih: "re_sub whitespace_run (ascii '' '') cs = cs" by blast
    show ?thesis
    proof (cases "is_space c")
      case True
      then have c: "c = 32" using "1.prems" Cons by (simp add: tidy_def)
      have "cs = [] \<or> \<not> is_space (hd cs)"
        using "1.prems" Cons True by (auto simp: tidy_def successively_Cons)
      then have "dropWhile is_space cs = cs"
        by (cases cs) auto
      then show ?thesis using True c ih unfolding Cons
        by (simp add: collapse_Cons ascii_def del: re_sub.simps)
    next
      case False
      then show ?thesis using ih unfolding Cons by (simp add: collapse_Cons del: re_sub.simps)
    qed
  qed
qed

lemma tidy_dropWhile: "tidy s \<Longrightarrow> tidy (dropWhile is_space s)"
proof -
  assume t: "tidy s"
  have "s = takeWhile is_space s @ dropWhile is_space s" by simp
  then have "successively (\<lambda>a b. \<not> (is_space a \<and> is_space b)) (takeWhile is_space s @ dropWhile is_space s)"
    using t by (simp add: tidy_def)
  then have "successively (\<lambda>a b. \<not> (is_space a \<and> is_space b)) (dropWhile is_space s)"
    unfolding successively_append_iff by blast
  moreover have "set (dropWhile is_space s) \<subseteq> set s"
    by (rule set_dropWhileD [THEN subsetI])
  ultimately show ?thesis using t by (auto simp: tidy_def)
qed

lemma tidy_rev: "tidy (rev s) = tidy s"
  by (auto simp: tidy_def elim: successively_mono)

lemma tidy_strip: "tidy s \<Longrightarrow> tidy (strip s)"
  by (simp add: strip_def tidy_rev tidy_dropWhile)

lemma dropWhile_not_hd: "s = [] \<or> \<not> P (hd s) \<Longrightarrow> dropWhile P s = s"
  by (cases s) auto

lemma strip_strip: "strip (strip s) = strip s"
proof -
  let ?a = "dropWhile is_space s"
  let ?b = "dropWhile is_space (rev ?a)"
  have b: "?b = [] \<or> \<not> is_space (hd ?b)"
    by (metis hd_dropWhile)
  have "rev ?b = [] \<or> \<not> is_space (hd (rev ?b))"
  proof (cases "?b = []")
    case True
    then show ?thesis by simp
  next
    case False
    have a: "?a \<noteq> []"
    proof
      assume e: "?a = []"
      have "?b = []" unfolding e by simp
      with False show False by blast
    qed
    then have "\<not> is_space (hd ?a)" by (metis hd_dropWhile)
    moreover have "hd (rev ?b) = hd ?a"
    proof -
      obtain pre where "rev ?a = pre @ ?b"
        by (metis takeWhile_dropWhile_id)
      then have "?a = rev ?b @ rev pre"
        by (metis rev_append rev_rev_ident)
      then show ?thesis using False
        by (metis hd_append2 rev_is_Nil_conv)
    qed
    ultimately show ?thesis by simp
  qed
  then have "dropWhile is_space (rev ?b) = rev ?b"
    by (rule dropWhile_not_hd)
  moreover have "dropWhile is_space ?b = ?b"
    using b by (rule dropWhile_not_hd)
  ultimately show ?thesis
    by (simp add: strip_def)
qed

lemma clean_institution_fixed:
  assumes "tidy t" "strip t = t"
  shows "clean_institution t = (if t = [] \<or> t \<in> set [[172, 8721], ascii ''.''] then ascii ''N/A'' else t)"
  using assms by (simp add: clean_institution_def collapse_tidy)

lemma clean_NA: "clean_institution (ascii ''N/A'') = ascii ''N/A''"
proof -
  have "tidy (ascii ''N/A'')"
    by (simp add: tidy_def ascii_def is_space_def)
  moreover have "strip (ascii ''N/A'') = ascii ''N/A''"
    by (simp add: strip_def ascii_def is_space_def)
  ultimately show ?thesis
    by (simp add: clean_institution_fixed)
qed

text \<open>
  Claim C9. The clean-up of the institution text (whitespace runs collapsed to one space,
  the ends stripped, an empty result or a bare separator replaced by \<open>N/A\<close>) is
  idempotent.
\<close>

theorem clean_institution_idempotent:
  "clean_institution (clean_institution s) = clean_institution s"
proof -
  let ?t = "strip (re_sub whitespace_run (ascii '' '') s)"
  have t: "tidy ?t" by (simp add: tidy_strip tidy_collapse)
  have st: "strip ?t = ?t" by (rule strip_strip)
  show ?thesis
  proof (cases "?t = [] \<or> ?t \<in> set [[172, 8721], ascii ''.'']")
    case True
    then have "clean_institution s = ascii ''N/A''"
      by (simp add: clean_institution_def Let_def)
    then show ?thesis by (simp add: clean_NA)
  next
    case False
    then have "clean_institution s = ?t"
      by (simp add: clean_institution_def Let_def)
    moreover have "clean_institution ?t = ?t"
      using clean_institution_fixed [OF t st] False by simp
    ultimately show ?thesis by simp
  qed
qed

lemma text_valued_dict_set: "text_valued d \<Longrightarrow> text_valued (dict_set k (PStr t) d)"
  by (auto simp: text_valued_def map_of_dict_set)

lemma text_valued_Nil: "text_valued []"
  by (simp add: text_valued_def)

lemma inv_handle_starttag:
  "extractor_inv s \<Longrightarrow> handle_starttag s tag as = Inr s' \<Longrightarrow> extractor_inv s'"
  by (auto simp: handle_starttag_def start_a_def start_h3_def start_article_def start_span_def
      extractor_inv_def text_valued_dict_set text_valued_Nil Let_def
      split: if_splits option.splits list.splits sum.splits)

lemma complete_has_text:
  "text_valued paper \<Longrightarrow> complete paper \<Longrightarrow>
   has_text (dict_set (ascii ''institution'') v paper) (ascii ''url'')
   \<and> has_text (dict_set (ascii ''institution'') v paper) (ascii ''title'')"
  by (auto simp: complete_def has_text_def text_valued_def dict_get_def map_of_dict_set
      split: option.splits pyval.splits)

lemma inv_end_article: "extractor_inv s \<Longrightarrow> extractor_inv (end_article tag s)"
  by (auto simp: end_article_def emitted_def extractor_inv_def complete_has_text
      split: option.splits)

lemma inv_handle_endtag:
  "extractor_inv s \<Longrightarrow> handle_endtag s tag = Inr s' \<Longrightarrow> extractor_inv s'"
proof -
  assume inv: "extractor_inv s" and h: "handle_endtag s tag = Inr s'"
  from h obtain s1 where s1: "end_a tag s = Inr s1"
    and s': "s' = end_article tag (end_span tag (end_h3 tag s1))"
    by (auto simp: handle_endtag_def split: sum.splits)
  have "extractor_inv s1"
    using inv s1
    by (auto simp: end_a_def extractor_inv_def text_valued_dict_set split: if_splits option.splits)
  then have "extractor_inv (end_span tag (end_h3 tag s1))"
    by (simp add: end_span_def end_h3_def extractor_inv_def)
  then show ?thesis unfolding s' by (rule inv_end_article)
qed

lemma inv_handle_data: "extractor_inv s \<Longrightarrow> extractor_inv (handle_data s data)"
  by (simp add: handle_data_def extractor_inv_def Let_def)

lemma inv_feed: "extractor_inv s \<Longrightarrow> feed s evs = Inr s' \<Longrightarrow> extractor_inv s'"
proof (induction s evs rule: feed.induct)
  case (1 s)
  then show ?case by simp
next
  case (2 s tag as evs)
  then show ?case by (auto split: sum.splits dest: inv_handle_starttag)
next
  case (3 s tag evs)
  then show ?case by (auto split: sum.splits dest: inv_handle_endtag)
next
  case (4 s data evs)
  then show ?case by (simp add: inv_handle_data)
qed

lemma inv_new_extractor: "extractor_inv new_extractor"
  by (simp add: extractor_inv_def new_extractor_def)

lemma lacks_not_complete:
  "lacks paper (ascii ''url'') \<or> lacks paper (ascii ''title'') \<Longrightarrow> \<not> complete paper"
  by (auto simp: lacks_def complete_def dict_get_def split: option.splits)

lemma end_article_tag:
  "handle_endtag s (ascii ''article'') = Inr (end_article (ascii ''article'') s)"
  by (simp add: handle_endtag_def end_a_def end_span_def end_h3_def)

text \<open>
  Claim C2. Whatever events the extractor is fed, every record it has emitted when the run
  returns holds a non-empty url and a non-empty title. The end of an article never raises,
  and it emits nothing when the scratch record lacks the url or the title.
\<close>

theorem extractor_emits_complete_records:
  "(feed new_extractor evs = Inr s \<longrightarrow>
      (\<forall>paper \<in> set (papers s). has_text paper (ascii ''url'') \<and> has_text paper (ascii ''title'')))
   \<and> (\<exists>s1. handle_endtag s0 (ascii ''article'') = Inr s1 \<and> \<not> in_article s1
          \<and> ((\<forall>paper. current_paper s0 = Some paper \<longrightarrow>
                 lacks paper (ascii ''url'') \<or> lacks paper (ascii ''title''))
               \<longrightarrow> papers s1 = papers s0))"
proof -
  have "extractor_inv s" if "feed new_extractor evs = Inr s"
    using inv_new_extractor that by (rule inv_feed)
  then have a: "feed new_extractor evs = Inr s \<longrightarrow>
      (\<forall>paper \<in> set (papers s). has_text paper (ascii ''url'') \<and> has_text paper (ascii ''title''))"
    by (simp add: extractor_inv_def)
  let ?s1 = "end_article (ascii ''article'') s0"
  have "\<not> in_article ?s1"
    by (simp add: end_article_def)
  moreover have "papers ?s1 = papers s0"
    if "\<forall>paper. current_paper s0 = Some paper \<longrightarrow>
          lacks paper (ascii ''url'') \<or> lacks paper (ascii ''title'')"
    using that lacks_not_complete
    by (auto simp: end_article_def emitted_def split: option.splits)
  ultimately show ?thesis using a end_article_tag [of s0] by blast
qed

lemma example_feed:
  "feed new_extractor example_events =
     Inr (new_extractor\<lparr>papers := [listed_a, listed_b], current_text := ascii ''Second paper''\<rparr>)"
  by (simp add: example_events_def new_extractor_def handle_starttag_def handle_endtag_def
      handle_data_def start_article_def start_h3_def start_a_def start_span_def end_a_def
      end_h3_def end_span_def end_article_def emitted_def complete_def attr_get_def
      dict_set_def dict_get_def listed_a_def listed_b_def url_a_def url_b_def
      clean_institution_def collapse_Cons ascii_def is_space_def strip_def del: re_sub.simps)

theorem extractor_emits_complete_records_witness:
  "feed new_extractor example_events =
     Inr (new_extractor\<lparr>papers := [listed_a, listed_b], current_text := ascii ''Second paper''\<rparr>)
   \<and> has_text listed_a (ascii ''url'') \<and> has_text listed_a (ascii ''title'')
   \<and> lacks [(ascii ''title'', PStr (ascii ''No link''))] (ascii ''url'')
   \<and> (\<exists>s1. handle_endtag scratch_without_url (ascii ''article'') = Inr s1
          \<and> papers s1 = papers scratch_without_url)"
proof -
  let ?s = "new_extractor\<lparr>papers := [listed_a, listed_b], current_text := ascii ''Second paper''\<rparr>"
  note inst = extractor_emits_complete_records [of example_events ?s scratch_without_url]
  have l: "\<forall>paper. current_paper scratch_without_url = Some paper \<longrightarrow>
             lacks paper (ascii ''url'') \<or> lacks paper (ascii ''title'')"
    by (simp add: scratch_without_url_def lacks_def)
  have l': "lacks [(ascii ''title'', PStr (ascii ''No link''))] (ascii ''url'')"
    by (simp add: lacks_def)
  from inst example_feed
  have "\<forall>paper \<in> set (papers ?s). has_text paper (ascii ''url'') \<and> has_text paper (ascii ''title'')"
    by blast
  then have ht: "has_text listed_a (ascii ''url'') \<and> has_text listed_a (ascii ''title'')"
    by simp
  from inst l
  have "\<exists>s1. handle_endtag scratch_without_url (ascii ''article'') = Inr s1
          \<and> papers s1 = papers scratch_without_url"
    by blast
  with ht example_feed l' show ?thesis by blast
qed

section \<open>Properties of translation and of the new-paper path\<close>

lemma translate_attempts_all_fail:
  "(\<forall>k<n. translate w (t + k) text lang = None) \<Longrightarrow>
   translate_attempts w text lang n t = (text, t + n)"
proof (induction n arbitrary: t)
  case 0
  then show ?case by simp
next
  case (Suc n)
  from Suc.prems have "translate w t text lang = None" by force
  moreover have "\<forall>k<n. translate w (Suc t + k) text lang = None"
    using Suc.prems by (metis Suc_less_eq add_Suc_shift)
  ultimately show ?case using Suc.IH [of "Suc t"] by simp
qed

lemma desc_key_inj [simp]: "desc_key a = desc_key b \<longleftrightarrow> a = b"
  by (simp add: desc_key_def)

lemma abs_key_inj [simp]: "abs_key a = abs_key b \<longleftrightarrow> a = b"
  by (simp add: abs_key_def)

lemma desc_key_neq_abs_key [simp]: "desc_key a \<noteq> abs_key b" "abs_key b \<noteq> desc_key a"
  by (simp_all add: desc_key_def abs_key_def ascii_def)

lemma key_neq_fixed [simp]:
  "desc_key a \<noteq> ascii ''abstract''" "desc_key a \<noteq> ascii ''abstract_short''"
  "desc_key a \<noteq> ascii ''arxiv_abs''" "desc_key a \<noteq> ascii ''arxiv_pdf''"
  "desc_key a \<noteq> ascii ''authors''" "desc_key a \<noteq> ascii ''title''"
  "abs_key a \<noteq> ascii ''abstract''" "abs_key a \<noteq> ascii ''abstract_short''"
  "abs_key a \<noteq> ascii ''arxiv_abs''" "abs_key a \<noteq> ascii ''arxiv_pdf''"
  "abs_key a \<noteq> ascii ''authors''" "abs_key a \<noteq> ascii ''title''"
  by (simp_all add: desc_key_def abs_key_def ascii_def)

lemma map_of_update_details:
  "k \<notin> set [ascii ''abstract'', ascii ''abstract_short'', ascii ''arxiv_abs'', ascii ''arxiv_pdf'',
             ascii ''authors''] \<Longrightarrow>
   map_of (update_details d paper) k = map_of paper k"
  by (simp add: update_details_def map_of_dict_set)

lemma translate_field_other:
  "k \<notin> key ` set langs \<Longrightarrow>
   map_of (fst (translate_field w key text langs (paper, t))) k = map_of paper k"
proof (induction langs arbitrary: paper t)
  case Nil
  then show ?case by simp
next
  case (Cons lang langs)
  then show ?case
    by (auto simp: map_of_dict_set split: prod.splits)
qed

lemma translate_field_all_fail:
  assumes "\<forall>t text lang. translate w t text lang = None"
  shows "map_of (fst (translate_field w key text langs (paper, t))) k =
           (if k \<in> key ` set langs then Some (PStr text) else map_of paper k)"
proof (induction langs arbitrary: paper t)
  case Nil
  then show ?case by simp
next
  case (Cons lang langs)
  have "translate_with_retry w t text lang 3 = (text, t + 3)"
    using translate_attempts_all_fail [of "nat 3" w t "text" lang] assms
    by (simp add: translate_with_retry_def)
  then show ?case using Cons.IH [of "dict_set (key lang) (PStr text) paper" "t + 3"]
    by (auto simp: map_of_dict_set)
qed

lemma mark_failed_title: "title_prefix p = Inl e' \<Longrightarrow> mark_failed e p = Inl e'"
  by (simp add: mark_failed_def)

lemma process_new_success:
  assumes url: "map_of paper (ascii ''url'') = Some (PStr url)"
    and fetch: "fetch_with_retry cfg w 0 url = (Inr html, t)"
    and ok: "process_new cfg w paper = Inr result"
  shows "result = fst (translate_abstracts cfg w (extract_abstracts w html)
                         (update_details (extract_abstracts w html) paper, t))"
proof -
  let ?d = "extract_abstracts w html"
  let ?p1 = "update_details ?d paper"
  let ?p2 = "fst (translate_abstracts cfg w ?d (?p1, t))"
  have ft: "fetch_and_translate cfg w paper =
      (case title_prefix ?p1 of
         Inl e \<Rightarrow> Inl (e, ?p1)
       | Inr u \<Rightarrow> (case title_prefix ?p2 of Inl e \<Rightarrow> Inl (e, ?p2) | Inr u \<Rightarrow> Inr ?p2))"
    using url fetch
    by (simp add: fetch_and_translate_def subscript_def Let_def split: sum.splits)
  show ?thesis
    using ok unfolding process_new_def ft
    by (auto simp: mark_failed_title split: sum.splits)
qed

lemma translate_abstracts_keys:
  fixes d paper t cfg w
  defines "r \<equiv> fst (translate_abstracts cfg w d (paper, t))"
  shows "\<not> translatable (abstract_short d) \<Longrightarrow> map_of r (desc_key l) = map_of paper (desc_key l)"
    and "\<not> translatable (abstract_full d) \<Longrightarrow> map_of r (abs_key l) = map_of paper (abs_key l)"
    and "\<forall>n s l. translate w n s l = None \<Longrightarrow> translatable (abstract_short d) \<Longrightarrow>
           l \<in> set (TARGET_LANGUAGES cfg) \<Longrightarrow> map_of r (desc_key l) = Some (PStr (abstract_short d))"
    and "\<forall>n s l. translate w n s l = None \<Longrightarrow> translatable (abstract_full d) \<Longrightarrow>
           l \<in> set (TARGET_LANGUAGES cfg) \<Longrightarrow> map_of r (abs_key l) = Some (PStr (abstract_full d))"
proof -
  let ?langs = "TARGET_LANGUAGES cfg"
  obtain p2 t2 where p2: "(if translatable (abstract_short d)
                    then translate_field w desc_key (abstract_short d) ?langs (paper, t)
                    else (paper, t)) = (p2, t2)"
    by (metis surj_pair)
  have r: "r = fst (if translatable (abstract_full d)
                    then translate_field w abs_key (abstract_full d) ?langs (p2, t2)
                    else (p2, t2))"
    unfolding r_def translate_abstracts_def Let_def p2 ..
  have r_desc: "map_of r (desc_key k) = map_of p2 (desc_key k)" for k
    unfolding r by (simp add: translate_field_other image_iff)
  have p2_abs: "map_of p2 (abs_key k) = map_of paper (abs_key k)" for k
  proof -
    have "p2 = fst (if translatable (abstract_short d)
                    then translate_field w desc_key (abstract_short d) ?langs (paper, t)
                    else (paper, t))"
      unfolding p2 by simp
    then show ?thesis by (simp add: translate_field_other image_iff)
  qed
  show "\<not> translatable (abstract_short d) \<Longrightarrow> map_of r (desc_key l) = map_of paper (desc_key l)"
    using p2 r_desc [of l] by simp
  show "\<not> translatable (abstract_full d) \<Longrightarrow> map_of r (abs_key l) = map_of paper (abs_key l)"
    using p2_abs [of l] unfolding r by simp
  show "map_of r (desc_key l) = Some (PStr (abstract_short d))"
    if fail: "\<forall>n s l. translate w n s l = None" and tr: "translatable (abstract_short d)"
      and l: "l \<in> set ?langs"
  proof -
    have "p2 = fst (translate_field w desc_key (abstract_short d) ?langs (paper, t))"
      using p2 tr by (metis fst_conv)
    then have "map_of p2 (desc_key l) = Some (PStr (abstract_short d))"
      using translate_field_all_fail [OF fail] l by simp
    then show ?thesis by (simp add: r_desc)
  qed
  show "map_of r (abs_key l) = Some (PStr (abstract_full d))"
    if fail: "\<forall>n s l. translate w n s l = None" and tr: "translatable (abstract_full d)"
      and l: "l \<in> set ?langs"
    using translate_field_all_fail [OF fail] l tr unfolding r by simp
qed

text \<open>
  Claim C5. When the translation backend fails at every one of the \<open>max_retries\<close>
  attempts, \<open>translate_with_retry\<close> returns the text it was given; it has no exception to
  propagate. On the new-paper path of \<open>process_paper\<close>, a short abstract that is empty or
  \<open>[Not available]\<close> leaves every \<open>description_\<close> field as it was (absent, for a
  listed paper), and likewise the full abstract and the \<open>abstractFull_\<close> fields. When
  the backend always fails, each translated field of a translatable abstract holds the
  abstract itself.
\<close>

theorem translation_fallback:
  "((\<forall>k < nat max_retries. translate w (t + k) source lang = None) \<longrightarrow>
      fst (translate_with_retry w t source lang max_retries) = source)
   \<and> (lookup_cached paper processed_dict paper_cache = Inr None
      \<and> map_of paper (ascii ''url'') = Some (PStr url)
      \<and> fetch_with_retry cfg w 0 url = (Inr html, t')
      \<and> process_paper cfg w paper processed_dict paper_cache = Inr result \<longrightarrow>
        (\<not> translatable (short_abstract html) \<longrightarrow>
           (\<forall>l. map_of result (desc_key l) = map_of paper (desc_key l)))
      \<and> (\<not> translatable (full_abstract html) \<longrightarrow>
           (\<forall>l. map_of result (abs_key l) = map_of paper (abs_key l)))
      \<and> ((\<forall>n s l. translate w n s l = None) \<longrightarrow>
           (translatable (short_abstract html) \<longrightarrow>
              (\<forall>l \<in> set (TARGET_LANGUAGES cfg).
                 map_of result (desc_key l) = Some (PStr (short_abstract html))))
         \<and> (translatable (full_abstract html) \<longrightarrow>
              (\<forall>l \<in> set (TARGET_LANGUAGES cfg).
                 map_of result (abs_key l) = Some (PStr (full_abstract html))))))"
proof -
  have a: "fst (translate_with_retry w t source lang max_retries) = source"
    if "\<forall>k < nat max_retries. translate w (t + k) source lang = None"
    using translate_attempts_all_fail [OF that] by (simp add: translate_with_retry_def)
  have b: "(\<not> translatable (short_abstract html) \<longrightarrow>
           (\<forall>l. map_of result (desc_key l) = map_of paper (desc_key l)))
      \<and> (\<not> translatable (full_abstract html) \<longrightarrow>
           (\<forall>l. map_of result (abs_key l) = map_of paper (abs_key l)))
      \<and> ((\<forall>n s l. translate w n s l = None) \<longrightarrow>
           (translatable (short_abstract html) \<longrightarrow>
              (\<forall>l \<in> set (TARGET_LANGUAGES cfg).
                 map_of result (desc_key l) = Some (PStr (short_abstract html))))
         \<and> (translatable (full_abstract html) \<longrightarrow>
              (\<forall>l \<in> set (TARGET_LANGUAGES cfg).
                 map_of result (abs_key l) = Some (PStr (full_abstract html)))))"
    if lc: "lookup_cached paper processed_dict paper_cache = Inr None"
      and url: "map_of paper (ascii ''url'') = Some (PStr url)"
      and fetch: "fetch_with_retry cfg w 0 url = (Inr html, t')"
      and ok: "process_paper cfg w paper processed_dict paper_cache = Inr result"
  proof -
    let ?d = "extract_abstracts w html"
    let ?p1 = "update_details ?d paper"
    have "process_new cfg w paper = Inr result"
      using ok lc by (simp add: process_paper_def)
    from process_new_success [OF url fetch this]
    have res: "result = fst (translate_abstracts cfg w ?d (?p1, t'))" .
    have d: "abstract_short ?d = short_abstract html" "abstract_full ?d = full_abstract html"
      by (simp_all add: extract_abstracts_def)
    note keys = translate_abstracts_keys
      [where d = ?d and cfg = cfg and w = w and paper = ?p1 and t = t', folded res, unfolded d]
    have p1: "map_of ?p1 (desc_key l) = map_of paper (desc_key l)"
      "map_of ?p1 (abs_key l) = map_of paper (abs_key l)" for l
      by (simp_all add: map_of_update_details)
    show ?thesis
      using keys p1 by auto
  qed
  show ?thesis using a b by blast
qed

section \<open>Properties of the extraction of abstracts\<close>

lemma startswith_iff: "startswith s p \<longleftrightarrow> (\<exists>t. s = p @ t)"
  by (induction s p rule: startswith.induct) auto

lemma contains_iff: "contains s p \<longleftrightarrow> (\<exists>a b. s = a @ p @ b)"
proof (induction s)
  case Nil
  then show ?case by auto
next
  case (Cons c s)
  show ?case
  proof
    assume "contains (c # s) p"
    then consider "startswith (c # s) p" | "contains s p" by auto
    then show "\<exists>a b. c # s = a @ p @ b"
    proof cases
      case 1
      then obtain t where "c # s = p @ t" unfolding startswith_iff by blast
      then have "c # s = [] @ p @ t" by simp
      then show ?thesis by blast
    next
      case 2
      then obtain a b where "s = a @ p @ b" using Cons.IH by blast
      then have "c # s = (c # a) @ p @ b" by simp
      then show ?thesis by blast
    qed
  next
    assume "\<exists>a b. c # s = a @ p @ b"
    then obtain a b where ab: "c # s = a @ p @ b" by blast
    show "contains (c # s) p"
    proof (cases a)
      case Nil
      with ab have "startswith (c # s) p" unfolding startswith_iff by auto
      then show ?thesis by simp
    next
      case (Cons x a')
      with ab have "s = a' @ p @ b" by simp
      then have "contains s p" using Cons.IH by blast
      then show ?thesis by simp
    qed
  qed
qed

lemma contains_drop: "contains (drop k s) p \<Longrightarrow> contains s p"
proof -
  assume "contains (drop k s) p"
  then obtain a b where "drop k s = a @ p @ b" unfolding contains_iff by blast
  then have "s = (take k s @ a) @ p @ b"
    by (metis append_assoc append_take_drop_id)
  then show ?thesis unfolding contains_iff by blast
qed

lemma first_some_Some: "first_some f xs = Some r \<Longrightarrow> \<exists>x \<in> set xs. f x = Some r"
  by (induction xs) (auto split: option.splits)

lemma rx_abstract_heading:
  assumes "rx abstract_heading s g = Some r"
  shows "contains s (ascii ''>Abstract</h2>'')"
proof -
  let ?lit = "ascii ''>Abstract</h2>''"
  let ?s = "drop (length (ascii ''<h2'')) s"
  have "rx abstract_heading s g =
          (if startswith s (ascii ''<h2'')
           then first_some (\<lambda>k. rx [Lit ?lit] (drop k ?s) g)
                  (counts True 0 (length (takeWhile not_gt ?s)))
           else None)"
    by (simp only: abstract_heading_def rx.simps item.case)
  with assms have "first_some (\<lambda>k. rx [Lit ?lit] (drop k ?s) g)
                  (counts True 0 (length (takeWhile not_gt ?s))) = Some r"
    by (simp split: if_splits)
  from first_some_Some [OF this] obtain k where "rx [Lit ?lit] (drop k ?s) g = Some r"
    by blast
  then have "startswith (drop k ?s) ?lit"
    by (simp split: if_splits)
  then have "contains (drop k ?s) ?lit"
    by (cases "drop k ?s") (auto simp: ascii_def)
  then show ?thesis by (blast dest: contains_drop)
qed

lemma search_from_abstract_heading:
  "search_from abstract_heading i s = Some r \<Longrightarrow> contains s (ascii ''>Abstract</h2>'')"
proof (induction s arbitrary: i)
  case Nil
  then obtain r' where "rx abstract_heading [] [] = Some r'"
    by (auto split: option.splits)
  then show ?case by (rule rx_abstract_heading)
next
  case (Cons c s)
  show ?case
  proof (cases "rx abstract_heading (c # s) []")
    case None
    with Cons.prems have "search_from abstract_heading (Suc i) s = Some r" by simp
    then have "contains s (ascii ''>Abstract</h2>'')" by (rule Cons.IH)
    then show ?thesis by simp
  next
    case (Some r')
    then show ?thesis by (rule rx_abstract_heading)
  qed
qed

lemma no_heading_text:
  "\<not> contains html (ascii ''>Abstract</h2>'') \<Longrightarrow> re_search abstract_heading html = None"
  using search_from_abstract_heading [of 0 html]
  by (cases "re_search abstract_heading html") (auto simp: re_search_def)

text \<open>
  Claim C4. The full abstract is the short abstract when the page has no heading
  \<open>Abstract\<close> (in particular when the text \<open>>Abstract</h2>\<close> occurs nowhere in it),
  when no further heading follows the heading, and when fewer than two paragraphs stand
  between it and the next heading.
\<close>

theorem full_abstract_falls_back:
  "(\<not> contains html (ascii ''>Abstract</h2>'') \<longrightarrow>
      abstract_full (extract_abstracts w html) = abstract_short (extract_abstracts w html))
   \<and> (re_search abstract_heading html = None \<longrightarrow>
      abstract_full (extract_abstracts w html) = abstract_short (extract_abstracts w html))
   \<and> (re_search abstract_heading html = Some (i, start, g)
      \<and> re_search heading_start (drop start html) = None \<longrightarrow>
      abstract_full (extract_abstracts w html) = abstract_short (extract_abstracts w html))
   \<and> (re_search abstract_heading html = Some (i, start, g)
      \<and> re_search heading_start (drop start html) = Some (next_h2, j, g')
      \<and> length (re_findall paragraph_block (take next_h2 (drop start html))) < 2 \<longrightarrow>
      abstract_full (extract_abstracts w html) = abstract_short (extract_abstracts w html))"
  using no_heading_text [of html]
  by (auto simp: extract_abstracts_def full_abstract_def)

lemma example_one_paragraph:
  "re_search abstract_heading page_one_paragraph = Some (43, 60, [])"
  "re_search heading_start (drop 60 page_one_paragraph) = Some (9, 12, [])"
  "re_findall paragraph_block (take 9 (drop 60 page_one_paragraph)) = [ascii ''AI'']"
  by (simp_all add: page_one_paragraph_def re_search_def abstract_heading_def heading_start_def
      paragraph_block_def counts_def not_gt_def any_char_def ascii_def upt_rec)

lemma example_short: "short_abstract page_one_paragraph = ascii ''Short''"
  by (simp add: short_abstract_def page_one_paragraph_def re_search_def short_abstract_div_def
      markup_tag_def counts_def not_gt_def not_quote_def any_char_def strip_def is_space_def
      ascii_def upt_rec)

lemma example_without_heading:
  "\<not> contains page_without_heading (ascii ''>Abstract</h2>'')"
  "short_abstract page_without_heading = ascii ''[Not available]''"
  by (simp_all add: page_without_heading_def short_abstract_def re_search_def
      short_abstract_div_def ascii_def)

theorem full_abstract_falls_back_witness:
  "re_search abstract_heading page_one_paragraph = Some (43, 60, [])
   \<and> re_search heading_start (drop 60 page_one_paragraph) = Some (9, 12, [])
   \<and> length (re_findall paragraph_block (take 9 (drop 60 page_one_paragraph))) < 2
   \<and> abstract_short (extract_abstracts example_world page_one_paragraph) = ascii ''Short''
   \<and> abstract_full (extract_abstracts example_world page_one_paragraph) = ascii ''Short''
   \<and> \<not> contains page_without_heading (ascii ''>Abstract</h2>'')
   \<and> abstract_full (extract_abstracts example_world page_without_heading)
       = ascii ''[Not available]''"
proof -
  have l: "length (re_findall paragraph_block (take 9 (drop 60 page_one_paragraph))) < 2"
    by (simp add: example_one_paragraph)
  have s: "abstract_short (extract_abstracts example_world page_one_paragraph) = ascii ''Short''"
    by (simp add: extract_abstracts_def example_short)
  have s': "abstract_short (extract_abstracts example_world page_without_heading)
              = ascii ''[Not available]''"
    by (simp add: extract_abstracts_def example_without_heading)
  from full_abstract_falls_back
         [of page_one_paragraph example_world 43 60 "[]" 9 12 "[]"]
       example_one_paragraph(1,2) l
  have a: "abstract_full (extract_abstracts example_world page_one_paragraph)
          = abstract_short (extract_abstracts example_world page_one_paragraph)"
    by blast
  from full_abstract_falls_back [of page_without_heading example_world]
       example_without_heading(1)
  have b: "abstract_full (extract_abstracts example_world page_without_heading)
          = abstract_short (extract_abstracts example_world page_without_heading)"
    by blast
  from a b s s' example_one_paragraph(1,2) l example_without_heading(1) show ?thesis
    by simp
qed

section \<open>Properties of the cached path\<close>

lemma restore_translations_effect:
  assumes ds: "dict_get tr (ascii ''descriptions'') (PDict []) = PDict ds"
    and fs: "dict_get tr (ascii ''abstract_fulls'') (PDict []) = PDict fs"
  shows "\<exists>r. restore_translations (PDict tr) langs res = Inr r
     \<and> (\<forall>l. map_of r (desc_key l) =
            (if l \<in> set langs then Some (dict_get ds l (PStr [])) else map_of res (desc_key l)))
     \<and> (\<forall>l. map_of r (abs_key l) =
            (if l \<in> set langs then Some (dict_get fs l (PStr [])) else map_of res (abs_key l)))
     \<and> (\<forall>k. k \<notin> desc_key ` set langs \<union> abs_key ` set langs \<longrightarrow> map_of r k = map_of res k)"
proof (induction langs arbitrary: res)
  case Nil
  then show ?case by simp
next
  case (Cons lang langs)
  let ?res = "dict_set (abs_key lang) (dict_get fs lang (PStr []))
                (dict_set (desc_key lang) (dict_get ds lang (PStr [])) res)"
  have step: "restore_translations (PDict tr) (lang # langs) res =
              restore_translations (PDict tr) langs ?res"
    using ds fs by (simp add: py_get_def)
  from Cons.IH [of ?res] obtain r where
    r: "restore_translations (PDict tr) langs ?res = Inr r"
    and d: "\<And>l. map_of r (desc_key l) =
            (if l \<in> set langs then Some (dict_get ds l (PStr [])) else map_of ?res (desc_key l))"
    and f: "\<And>l. map_of r (abs_key l) =
            (if l \<in> set langs then Some (dict_get fs l (PStr [])) else map_of ?res (abs_key l))"
    and o: "\<And>k. k \<notin> desc_key ` set langs \<union> abs_key ` set langs \<Longrightarrow> map_of r k = map_of ?res k"
    by blast
  have "map_of r (desc_key l) =
            (if l \<in> set (lang # langs) then Some (dict_get ds l (PStr []))
             else map_of res (desc_key l))" for l
    using d [of l] by (simp add: map_of_dict_set)
  moreover have "map_of r (abs_key l) =
            (if l \<in> set (lang # langs) then Some (dict_get fs l (PStr []))
             else map_of res (abs_key l))" for l
    using f [of l] by (simp add: map_of_dict_set)
  moreover have "map_of r k = map_of res k"
    if "k \<notin> desc_key ` set (lang # langs) \<union> abs_key ` set (lang # langs)" for k
    using o [of k] that by (auto simp: map_of_dict_set)
  ultimately show ?case unfolding step using r by blast
qed

text \<open>
  Claim C10. On a cache hit with an entry that holds a title and a url and whose
  translations are dictionaries (or absent), \<open>process_paper\<close> returns a record that,
  for every target language, holds both translated fields: the cached value, or the empty
  string when the cached mapping has no value for the language.
\<close>

theorem cached_paper_translations:
  assumes "lookup_cached paper processed_dict paper_cache = Inr (Some (PDict cached_paper))"
    and "cached_paper \<noteq> []"
    and "title_prefix paper = Inr ()"
    and "dict_has cached_paper (ascii ''title'')"
    and "dict_has cached_paper (ascii ''url'')"
    and "dict_get cached_paper (ascii ''translations'') (PDict []) = PDict tr"
    and "dict_get tr (ascii ''descriptions'') (PDict []) = PDict ds"
    and "dict_get tr (ascii ''abstract_fulls'') (PDict []) = PDict fs"
  shows "\<exists>result. process_paper cfg w paper processed_dict paper_cache = Inr result
     \<and> (\<forall>lang \<in> set (TARGET_LANGUAGES cfg).
            map_of result (desc_key lang) = Some (dict_get ds lang (PStr []))
          \<and> map_of result (abs_key lang) = Some (dict_get fs lang (PStr [])))"
proof -
  obtain title url where t: "map_of cached_paper (ascii ''title'') = Some title"
    and u: "map_of cached_paper (ascii ''url'') = Some url"
    using assms(4,5) by (auto simp: dict_has_def)
  let ?res = "[(ascii ''title'', title),
         (ascii ''url'', url),
         (ascii ''institution'',
            dict_get cached_paper (ascii ''institution'') (PStr (ascii ''N/A''))),
         (ascii ''abstract'', dict_get cached_paper (ascii ''abstract'') (PStr [])),
         (ascii ''abstract_short'',
            dict_get cached_paper (ascii ''abstract_short'') (PStr [])),
         (ascii ''arxiv_abs'', dict_get cached_paper (ascii ''arxiv_abs'') PNone),
         (ascii ''arxiv_pdf'', dict_get cached_paper (ascii ''arxiv_pdf'') PNone),
         (ascii ''authors'', dict_get cached_paper (ascii ''authors'') (PList [])),
         (ascii ''pub_date'',
            dict_get paper (ascii ''pub_date'')
              (dict_get cached_paper (ascii ''pub_date'') (PStr (now_text w))))]"
  have "process_paper cfg w paper processed_dict paper_cache =
          restore_from_cache cfg w paper cached_paper"
    using assms(1,2) by (simp add: process_paper_def)
  also have "\<dots> = restore_translations (PDict tr) (TARGET_LANGUAGES cfg) ?res"
    using assms(3,6) t u by (simp add: restore_from_cache_def subscript_def)
  finally have pp: "process_paper cfg w paper processed_dict paper_cache =
      restore_translations (PDict tr) (TARGET_LANGUAGES cfg) ?res" .
  from restore_translations_effect [OF assms(7,8), of "TARGET_LANGUAGES cfg" ?res]
  obtain r where r: "restore_translations (PDict tr) (TARGET_LANGUAGES cfg) ?res = Inr r"
    and d: "\<And>l. map_of r (desc_key l) =
            (if l \<in> set (TARGET_LANGUAGES cfg) then Some (dict_get ds l (PStr []))
             else map_of ?res (desc_key l))"
    and f: "\<And>l. map_of r (abs_key l) =
            (if l \<in> set (TARGET_LANGUAGES cfg) then Some (dict_get fs l (PStr []))
             else map_of ?res (abs_key l))"
    by blast
  have "process_paper cfg w paper processed_dict paper_cache = Inr r"
    unfolding pp by (rule r)
  moreover have "\<forall>lang \<in> set (TARGET_LANGUAGES cfg).
            map_of r (desc_key lang) = Some (dict_get ds lang (PStr []))
          \<and> map_of r (abs_key lang) = Some (dict_get fs lang (PStr []))"
    using d f by simp
  ultimately show ?thesis by blast
qed

section \<open>Properties of the scraping run\<close>

lemma has_text_title_prefix: "has_text paper (ascii ''title'') \<Longrightarrow> title_prefix paper = Inr ()"
  by (auto simp: has_text_def title_prefix_def split: option.splits pyval.splits)

lemma title_prefix_cong: "map_of p (ascii ''title'') = map_of q (ascii ''title'') \<Longrightarrow>
  title_prefix p = title_prefix q"
  by (simp add: title_prefix_def)

lemma translate_field_other_range:
  "k \<notin> range key \<Longrightarrow>
   map_of (fst (translate_field w key source langs (paper, t))) k = map_of paper k"
  by (rule translate_field_other) auto

lemma translate_abstracts_other:
  "k \<notin> range desc_key \<Longrightarrow> k \<notin> range abs_key \<Longrightarrow>
   map_of (fst (translate_abstracts cfg w d (paper, t))) k = map_of paper k"
proof -
  assume k: "k \<notin> range desc_key" "k \<notin> range abs_key"
  obtain p2 t2 where p2: "(if translatable (abstract_short d)
                    then translate_field w desc_key (abstract_short d) (TARGET_LANGUAGES cfg) (paper, t)
                    else (paper, t)) = (p2, t2)"
    by (metis surj_pair)
  have "p2 = fst (if translatable (abstract_short d)
                    then translate_field w desc_key (abstract_short d) (TARGET_LANGUAGES cfg) (paper, t)
                    else (paper, t))"
    unfolding p2 by simp
  then have a: "map_of p2 k = map_of paper k"
    using k by (simp add: translate_field_other_range)
  have "fst (translate_abstracts cfg w d (paper, t)) =
        fst (if translatable (abstract_full d)
             then translate_field w abs_key (abstract_full d) (TARGET_LANGUAGES cfg) (p2, t2)
             else (p2, t2))"
    unfolding translate_abstracts_def Let_def p2 ..
  then show ?thesis using k a by (simp add: translate_field_other_range)
qed

lemma fixed_not_translated [simp]:
  "ascii ''title'' \<notin> range desc_key" "ascii ''title'' \<notin> range abs_key"
  "ascii ''url'' \<notin> range desc_key" "ascii ''url'' \<notin> range abs_key"
  "ascii ''abstract'' \<notin> range desc_key" "ascii ''abstract'' \<notin> range abs_key"
  "ascii ''abstract_short'' \<notin> range desc_key" "ascii ''abstract_short'' \<notin> range abs_key"
  "ascii ''pub_date'' \<notin> range desc_key" "ascii ''pub_date'' \<notin> range abs_key"
  "ascii ''institution'' \<notin> range desc_key" "ascii ''institution'' \<notin> range abs_key"
  by (auto simp: desc_key_def abs_key_def ascii_def)

lemma fetch_with_retry_cases:
  "(\<exists>html t. fetch_with_retry cfg w n url = (Inr html, t))
   \<or> (\<exists>t. fetch_with_retry cfg w n url =
         (Inl (FetchFailed (ascii ''Failed to fetch '' @ url @ ascii '' after ''
                  @ str_int (MAX_RETRIES cfg) @ ascii '' attempts'')), t))"
  by (auto simp: fetch_with_retry_def split: prod.splits option.splits)

text \<open>What the new-paper path returns, for a listed paper with a url and a title.\<close>

lemma process_new_result:
  assumes url: "map_of paper (ascii ''url'') = Some (PStr url)"
    and title: "has_text paper (ascii ''title'')"
  shows "(\<forall>html t. fetch_with_retry cfg w 0 url = (Inr html, t) \<longrightarrow>
            process_new cfg w paper =
              Inr (fst (translate_abstracts cfg w (extract_abstracts w html)
                         (update_details (extract_abstracts w html) paper, t))))
       \<and> (\<forall>e t. fetch_with_retry cfg w 0 url = (Inl e, t) \<longrightarrow>
            process_new cfg w paper =
              Inr (dict_set (ascii ''abstract_short'')
                     (error_marker (ascii ''Failed to fetch '' @ url @ ascii '' after ''
                        @ str_int (MAX_RETRIES cfg) @ ascii '' attempts''))
                     (dict_set (ascii ''abstract'')
                        (error_marker (ascii ''Failed to fetch '' @ url @ ascii '' after ''
                           @ str_int (MAX_RETRIES cfg) @ ascii '' attempts''))
                        paper)))"
proof (intro conjI allI impI)
  fix html t
  assume fetch: "fetch_with_retry cfg w 0 url = (Inr html, t)"
  let ?d = "extract_abstracts w html"
  let ?p1 = "update_details ?d paper"
  let ?p2 = "fst (translate_abstracts cfg w ?d (?p1, t))"
  have t1: "title_prefix ?p1 = Inr ()"
    using title has_text_title_prefix
    by (simp add: title_prefix_def update_details_def map_of_dict_set)
  have "map_of ?p2 (ascii ''title'') = map_of ?p1 (ascii ''title'')"
    by (simp add: translate_abstracts_other)
  then have t2: "title_prefix ?p2 = Inr ()"
    using t1 by (simp add: title_prefix_def)
  show "process_new cfg w paper = Inr ?p2"
    using url fetch t1 t2
    by (simp add: process_new_def fetch_and_translate_def subscript_def Let_def)
next
  fix e t
  assume fetch: "fetch_with_retry cfg w 0 url = (Inl e, t)"
  let ?msg = "ascii ''Failed to fetch '' @ url @ ascii '' after ''
                        @ str_int (MAX_RETRIES cfg) @ ascii '' attempts''"
  have e: "e = FetchFailed ?msg"
    using fetch fetch_with_retry_cases [of cfg w 0 url] by auto
  show "process_new cfg w paper =
          Inr (dict_set (ascii ''abstract_short'') (error_marker ?msg)
                 (dict_set (ascii ''abstract'') (error_marker ?msg) paper))"
    using url fetch has_text_title_prefix [OF title]
    by (simp add: process_new_def fetch_and_translate_def subscript_def mark_failed_def e)
qed

lemma fetch_attempts_all_fail:
  "(\<forall>k<n. http_get w (t + k) url = None) \<Longrightarrow> fetch_attempts w url n t = (None, t + n)"
proof (induction n arbitrary: t)
  case 0
  then show ?case by simp
next
  case (Suc n)
  from Suc.prems have "http_get w t url = None" by force
  moreover have "\<forall>k<n. http_get w (Suc t + k) url = None"
    using Suc.prems by (metis Suc_less_eq add_Suc_shift)
  ultimately show ?case using Suc.IH [of "Suc t"] by simp
qed

lemma restore_translations_exn:
  "restore_translations tr langs res = Inl e \<Longrightarrow> e = AttributeError"
  by (induction langs arbitrary: res)
     (auto simp: py_get_def split: sum.splits pyval.splits)

lemma restore_from_cache_exn:
  "title_prefix paper = Inr () \<Longrightarrow> restore_from_cache cfg w paper cached = Inl e \<Longrightarrow>
   e \<noteq> Unmodelled"
  by (auto simp: restore_from_cache_def subscript_def
      split: sum.splits option.splits dest: restore_translations_exn)

lemma process_new_total:
  assumes "map_of paper (ascii ''url'') = Some (PStr url)" "has_text paper (ascii ''title'')"
  shows "\<exists>r. process_new cfg w paper = Inr r"
  using process_new_result [OF assms, of cfg w] 
  by (metis fetch_with_retry_cases)

lemma process_paper_exn:
  assumes url: "map_of paper (ascii ''url'') = Some (PStr url)"
    and title: "has_text paper (ascii ''title'')"
    and e: "process_paper cfg w paper pd pc = Inl e"
  shows "e \<noteq> Unmodelled"
proof -
  note tp = has_text_title_prefix [OF title]
  have "\<exists>c. lookup_cached paper pd pc = Inr c"
    using url by (simp add: lookup_cached_def subscript_def split: option.splits)
  then obtain c where lc: "lookup_cached paper pd pc = Inr c" ..
  obtain r where pn: "process_new cfg w paper = Inr r"
    using process_new_total [OF url title] by blast
  show ?thesis
  proof (cases c)
    case None
    with e lc pn show ?thesis by (simp add: process_paper_def)
  next
    case (Some cached)
    show ?thesis
    proof (cases "truthy cached")
      case False
      with e lc pn Some show ?thesis by (simp add: process_paper_def)
    next
      case True
      show ?thesis
      proof (cases cached)
        case (PDict cp)
        with e lc Some True have "restore_from_cache cfg w paper cp = Inl e"
          by (simp add: process_paper_def)
        with tp show ?thesis by (rule restore_from_cache_exn)
      qed (use e lc Some True tp in \<open>auto simp: process_paper_def\<close>)
    qed
  qed
qed

text \<open>The slot of a listed paper is always filled.\<close>

lemma task_result_cases:
  assumes url: "map_of paper (ascii ''url'') = Some (PStr url)"
    and title: "has_text paper (ascii ''title'')"
  shows "(\<forall>e. process_paper cfg w paper pd pc = Inl e \<longrightarrow>
            task_result cfg w pd pc paper = Inr paper)
       \<and> (\<forall>r. process_paper cfg w paper pd pc = Inr r \<longrightarrow>
            task_result cfg w pd pc paper = Inr (if title_prefix r = Inr () then r else paper))"
proof -
  note tp = has_text_title_prefix [OF title]
  have "task_result cfg w pd pc paper = Inr paper" if e: "process_paper cfg w paper pd pc = Inl e" for e
  proof -
    have "e \<noteq> Unmodelled" using url title e by (rule process_paper_exn)
    then show ?thesis using e tp by (cases e) (simp_all add: task_result_def)
  qed
  moreover have "task_result cfg w pd pc paper = Inr (if title_prefix r = Inr () then r else paper)"
    if "process_paper cfg w paper pd pc = Inr r" for r
    using that tp by (cases "title_prefix r") (simp_all add: task_result_def)
  ultimately show ?thesis by blast
qed

lemma task_result_total:
  assumes "map_of paper (ascii ''url'') = Some (PStr url)" "has_text paper (ascii ''title'')"
  shows "\<exists>r. task_result cfg w pd pc paper = Inr r"
  using task_result_cases [OF assms, of cfg w pd pc]
  by (cases "process_paper cfg w paper pd pc") auto

text \<open>The slots after the loop, whatever the order in which the tasks finish.\<close>

lemma collect_slots:
  assumes "\<forall>i<n. slot i = Inr (r i)" 
  shows "set order \<subseteq> {..<n} \<Longrightarrow> length results = n \<Longrightarrow>
    \<exists>results'. collect slot order results = Inr results' \<and> length results' = n
      \<and> (\<forall>i<n. results' ! i = (if i \<in> set order then Some (r i) else results ! i))"
proof (induction order arbitrary: results)
  case Nil
  then show ?case by simp
next
  case (Cons index order)
  have idx: "index < n" using Cons.prems(1) by simp
  then have s: "slot index = Inr (r index)" using assms by simp
  let ?res = "results[index := Some (r index)]"
  from Cons.IH [of ?res] Cons.prems obtain results' where
    c: "collect slot order ?res = Inr results'" and l: "length results' = n"
    and v: "\<And>i. i < n \<Longrightarrow> results' ! i = (if i \<in> set order then Some (r i) else ?res ! i)"
    by auto
  have "results' ! i = (if i \<in> set (index # order) then Some (r i) else results ! i)"
    if "i < n" for i
    using v [OF that] that Cons.prems(2) by (auto simp: nth_list_update)
  then show ?case using c l s by simp
qed

lemma collect_all:
  assumes "\<forall>i<n. slot i = Inr (r i)" and "set order = {..<n}"
  shows "collect slot order (replicate n None) = Inr (map (\<lambda>i. Some (r i)) [0..<n])"
proof -
  from collect_slots [OF assms(1), of order "replicate n None"] assms(2)
  obtain results' where c: "collect slot order (replicate n None) = Inr results'"
    and l: "length results' = n"
    and v: "\<forall>i<n. results' ! i = (if i \<in> set order then Some (r i) else replicate n None ! i)"
    by auto
  have "results' = map (\<lambda>i. Some (r i)) [0..<n]"
    using l v assms(2) by (intro nth_equalityI) auto
  with c show ?thesis by simp
qed

lemma assign_pub_date_fields:
  "assign_pub_date w pd pc i paper = Inr q \<Longrightarrow>
   q = paper \<or> (\<exists>d. q = dict_set (ascii ''pub_date'') d paper)"
  by (auto simp: assign_pub_date_def
      split: option.splits sum.splits pyval.splits if_splits)

lemma assign_pub_dates_fields:
  "assign_pub_dates w pd pc i ps = Inr qs \<Longrightarrow>
   list_all2 (\<lambda>p q. q = p \<or> (\<exists>d. q = dict_set (ascii ''pub_date'') d p)) ps qs"
proof (induction ps arbitrary: i qs)
  case Nil
  then show ?case by simp
next
  case (Cons p ps)
  then show ?case
    by (auto split: sum.splits dest: assign_pub_date_fields)
qed

lemma list_all2_in_set:
  "list_all2 P ps qs \<Longrightarrow> q \<in> set qs \<Longrightarrow> \<exists>p\<in>set ps. P p q"
  by (induction rule: list_all2_induct) auto

lemma has_text_dict_set_other:
  "k \<noteq> k' \<Longrightarrow> has_text (dict_set k' v p) k = has_text p k"
  by (simp add: has_text_def map_of_dict_set)

lemma listing_papers:
  assumes "listing cfg w pd pc = Inr listed" and "paper \<in> set listed"
  shows "has_text paper (ascii ''url'') \<and> has_text paper (ascii ''title'')"
proof -
  from assms(1) obtain html parser where
    f: "feed new_extractor (html_events w html) = Inr parser"
    and a: "assign_pub_dates w pd pc 0 (slice_to (papers parser) (MAX_PAPERS cfg)) = Inr listed"
    by (auto simp: listing_def split: sum.splits)
  have inv: "extractor_inv parser"
    using inv_new_extractor f by (rule inv_feed)
  from list_all2_in_set [OF assign_pub_dates_fields [OF a] assms(2)] obtain p where
    p: "p \<in> set (slice_to (papers parser) (MAX_PAPERS cfg))"
    and q: "paper = p \<or> (\<exists>d. paper = dict_set (ascii ''pub_date'') d p)"
    by blast
  from p have "p \<in> set (papers parser)"
    by (auto simp: slice_to_def dest: in_set_takeD split: if_splits)
  with inv have "has_text p (ascii ''url'') \<and> has_text p (ascii ''title'')"
    by (simp add: extractor_inv_def)
  with q show ?thesis
    by (auto simp: has_text_dict_set_other)
qed

lemma has_text_url: "has_text paper k \<Longrightarrow> \<exists>u. map_of paper k = Some (PStr u)"
  by (auto simp: has_text_def split: option.splits pyval.splits)

text \<open>
  \<open>scrape_papers\<close> returns, for every order in which the tasks finish, the slots of the
  listed papers in reverse listing order.
\<close>

lemma scrape_papers_slots:
  assumes l: "listing cfg w pd pc = Inr listed" and o: "set order = {..<length listed}"
  shows "\<exists>slots. length slots = length listed
     \<and> (\<forall>i<length listed. task_result cfg (task i) pd pc (listed ! i) = Inr (slots ! i))
     \<and> collect (slot_of cfg task pd pc listed) order (replicate (length listed) None)
         = Inr (map Some slots)
     \<and> scrape_papers cfg w task order pd pc = Inr (rev (map Some slots))"
proof -
  let ?n = "length listed"
  let ?r = "\<lambda>i. projr (task_result cfg (task i) pd pc (listed ! i))"
  let ?slots = "map ?r [0..<?n]"
  have tr: "task_result cfg (task i) pd pc (listed ! i) = Inr (?r i)" if "i < ?n" for i
  proof -
    have "listed ! i \<in> set listed" using that by simp
    from listing_papers [OF l this] obtain u where
      "map_of (listed ! i) (ascii ''url'') = Some (PStr u)" "has_text (listed ! i) (ascii ''title'')"
      using has_text_url by blast
    from task_result_total [OF this, of cfg "task i" pd pc] show ?thesis by auto
  qed
  then have "\<forall>i<?n. slot_of cfg task pd pc listed i = Inr (?r i)"
    by (simp add: slot_of_def)
  from collect_all [OF this o]
  have c: "collect (slot_of cfg task pd pc listed) order (replicate ?n None) = Inr (map Some ?slots)"
    by (simp add: comp_def)
  have "scrape_papers cfg w task order pd pc = Inr (rev (map Some ?slots))"
  proof (cases "listed = []")
    case True
    then show ?thesis using l by (simp add: scrape_papers_def)
  next
    case False
    then show ?thesis using l c by (simp add: scrape_papers_def)
  qed
  moreover have "\<forall>i<?n. task_result cfg (task i) pd pc (listed ! i) = Inr (?slots ! i)"
    using tr by simp
  ultimately show ?thesis using c
    by (intro exI [of _ ?slots]) simp
qed

text \<open>
  Claim C3. Whatever the order in which the tasks finish, provided every task finishes,
  the loop puts the result of task \<open>i\<close> into slot \<open>i\<close>, and \<open>scrape_papers\<close> returns
  the slots reversed: the record of listing position 0 is the last element.
\<close>

theorem scrape_papers_keeps_listing_order:
  assumes "listing cfg w processed_dict paper_cache = Inr listed"
    and "set order = {..<length listed}"
  shows "\<exists>slots. length slots = length listed
     \<and> (\<forall>i<length listed.
           task_result cfg (task i) processed_dict paper_cache (listed ! i) = Inr (slots ! i))
     \<and> collect (slot_of cfg task processed_dict paper_cache listed) order
           (replicate (length listed) None) = Inr (map Some slots)
     \<and> scrape_papers cfg w task order processed_dict paper_cache = Inr (rev (map Some slots))
     \<and> (listed \<noteq> [] \<longrightarrow> last (rev (map Some slots)) = Some (slots ! 0))"
proof -
  from scrape_papers_slots [OF assms, of task] obtain slots where
    s: "length slots = length listed"
    "\<forall>i<length listed.
           task_result cfg (task i) processed_dict paper_cache (listed ! i) = Inr (slots ! i)"
    "collect (slot_of cfg task processed_dict paper_cache listed) order
           (replicate (length listed) None) = Inr (map Some slots)"
    "scrape_papers cfg w task order processed_dict paper_cache = Inr (rev (map Some slots))"
    by blast
  have "last (rev (map Some slots)) = Some (slots ! 0)" if "listed \<noteq> []"
  proof -
    from that s(1) have "slots \<noteq> []" by auto
    then show ?thesis by (simp add: last_rev hd_map hd_conv_nth)
  qed
  with s show ?thesis by blast
qed

text \<open>
  Claim C8, amended. Once the listing phase of \<open>scrape_papers\<close> has completed (the
  listing is fetched and parsed and the publication dates of lines 387 to 396 are
  assigned), and for every order in which all the tasks finish, \<open>scrape_papers\<close>
  returns one record per listed paper, whatever happens inside the tasks. A paper whose
  task raises is returned at its position as it was listed, without an error marker. A new
  paper whose detail page cannot be fetched in \<open>MAX_RETRIES\<close> attempts is returned at
  its position with the error marker in \<open>abstract\<close> and \<open>abstract_short\<close> and with
  all its other fields as listed. Nothing is said of a run whose listing phase raises.
\<close>

theorem failed_paper_is_kept:
  assumes "listing cfg w processed_dict paper_cache = Inr listed"
    and "set order = {..<length listed}"
    and "i < length listed"
  shows "\<exists>out. scrape_papers cfg w task order processed_dict paper_cache = Inr out
     \<and> length out = length listed
     \<and> (\<forall>e. process_paper cfg (task i) (listed ! i) processed_dict paper_cache = Inl e \<longrightarrow>
           out ! (length listed - 1 - i) = Some (listed ! i))
     \<and> (\<forall>url. lookup_cached (listed ! i) processed_dict paper_cache = Inr None
           \<and> map_of (listed ! i) (ascii ''url'') = Some (PStr url)
           \<and> (\<forall>k < nat (MAX_RETRIES cfg). http_get (task i) k url = None) \<longrightarrow>
           (\<exists>r. out ! (length listed - 1 - i) = Some r
              \<and> map_of r (ascii ''abstract'') =
                  Some (error_marker (ascii ''Failed to fetch '' @ url @ ascii '' after ''
                          @ str_int (MAX_RETRIES cfg) @ ascii '' attempts''))
              \<and> map_of r (ascii ''abstract_short'') =
                  Some (error_marker (ascii ''Failed to fetch '' @ url @ ascii '' after ''
                          @ str_int (MAX_RETRIES cfg) @ ascii '' attempts''))
              \<and> (\<forall>k. k \<noteq> ascii ''abstract'' \<and> k \<noteq> ascii ''abstract_short'' \<longrightarrow>
                    map_of r k = map_of (listed ! i) k)))"
proof -
  let ?n = "length listed"
  let ?p = "listed ! i"
  from scrape_papers_slots [OF assms(1,2), of task] obtain slots where
    len: "length slots = ?n"
    and tr: "\<forall>i<?n. task_result cfg (task i) processed_dict paper_cache (listed ! i) = Inr (slots ! i)"
    and sp: "scrape_papers cfg w task order processed_dict paper_cache = Inr (rev (map Some slots))"
    by blast
  let ?out = "rev (map Some slots)"
  have at: "?out ! (?n - 1 - i) = Some (slots ! i)"
    using assms(3) len by (simp add: rev_nth)
  have "?p \<in> set listed" using assms(3) by simp
  from listing_papers [OF assms(1) this] have title: "has_text ?p (ascii ''title'')"
    and "\<exists>u. map_of ?p (ascii ''url'') = Some (PStr u)"
    using has_text_url by blast+
  then obtain u where u: "map_of ?p (ascii ''url'') = Some (PStr u)" by blast
  note cases = task_result_cases [OF u title, of cfg "task i" processed_dict paper_cache]
  have slot: "task_result cfg (task i) processed_dict paper_cache ?p = Inr (slots ! i)"
    using tr assms(3) by simp
  have a: "?out ! (?n - 1 - i) = Some ?p"
    if "process_paper cfg (task i) ?p processed_dict paper_cache = Inl e" for e
    using cases that slot at by simp
  have b: "\<exists>r. ?out ! (?n - 1 - i) = Some r
              \<and> map_of r (ascii ''abstract'') =
                  Some (error_marker (ascii ''Failed to fetch '' @ url @ ascii '' after ''
                          @ str_int (MAX_RETRIES cfg) @ ascii '' attempts''))
              \<and> map_of r (ascii ''abstract_short'') =
                  Some (error_marker (ascii ''Failed to fetch '' @ url @ ascii '' after ''
                          @ str_int (MAX_RETRIES cfg) @ ascii '' attempts''))
              \<and> (\<forall>k. k \<noteq> ascii ''abstract'' \<and> k \<noteq> ascii ''abstract_short'' \<longrightarrow>
                    map_of r k = map_of ?p k)"
    if lc: "lookup_cached ?p processed_dict paper_cache = Inr None"
      and url: "map_of ?p (ascii ''url'') = Some (PStr url)"
      and off: "\<forall>k < nat (MAX_RETRIES cfg). http_get (task i) k url = None"
    for url
  proof -
    let ?msg = "ascii ''Failed to fetch '' @ url @ ascii '' after ''
                          @ str_int (MAX_RETRIES cfg) @ ascii '' attempts''"
    let ?r = "dict_set (ascii ''abstract_short'') (error_marker ?msg)
                (dict_set (ascii ''abstract'') (error_marker ?msg) ?p)"
    have "fetch_attempts (task i) url (nat (MAX_RETRIES cfg)) 0 = (None, 0 + nat (MAX_RETRIES cfg))"
      using off by (intro fetch_attempts_all_fail) simp
    then have "fetch_with_retry cfg (task i) 0 url = (Inl (FetchFailed ?msg), nat (MAX_RETRIES cfg))"
      by (simp add: fetch_with_retry_def)
    with process_new_result [OF url title, of cfg "task i"]
    have "process_new cfg (task i) ?p = Inr ?r" by blast
    then have pp: "process_paper cfg (task i) ?p processed_dict paper_cache = Inr ?r"
      using lc by (simp add: process_paper_def)
    have "title_prefix ?r = Inr ()"
      using has_text_title_prefix [OF title]
      by (simp add: title_prefix_def map_of_dict_set)
    with cases pp have "task_result cfg (task i) processed_dict paper_cache ?p = Inr ?r"
      by simp
    with slot have "slots ! i = ?r" by simp
    with at show ?thesis
      by (simp add: map_of_dict_set)
  qed
  have "length ?out = ?n" using len by simp
  with sp a b show ?thesis by blast
qed

section \<open>The example run\<close>

lemma example_retries: "nat (MAX_RETRIES example_cfg) = Suc (Suc (Suc 0))"
  by (simp add: example_cfg_def eval_nat_numeral)

lemma example_fetch:
  "fetch_with_retry example_cfg example_world 0 url = (Inr page_two_paragraphs, 2)"
  by (simp add: fetch_with_retry_def example_retries) (simp add: example_world_def)

lemma offline_fetch:
  "fetch_with_retry example_cfg offline_world 0 url_b =
     (Inl (FetchFailed (ascii ''Failed to fetch https://huggingface.co/papers/2401.00002 after 3 attempts'')), 3)"
proof -
  have "fetch_attempts offline_world url_b (Suc (Suc (Suc 0))) 0 = (None, 3)"
    by (simp add: offline_world_def example_world_def)
  moreover have "str_int (MAX_RETRIES example_cfg) = [51]"
    by (simp add: str_int_def example_cfg_def digits.simps [of 3])
  ultimately show ?thesis
    by (simp add: fetch_with_retry_def example_retries url_b_def ascii_def)
qed

lemma example_listing:
  "listing example_cfg example_world (Some old_timestamps) (Some broken_cache) =
     Inr [listed_a, stamped_b]"
proof -
  have ev: "html_events example_world html = example_events" for html
    by (simp add: example_world_def)
  have "assign_pub_dates example_world (Some old_timestamps) (Some broken_cache) 0
          [listed_a, listed_b] = Inr [listed_a, stamped_b]"
    by (simp add: assign_pub_date_def subscript_def dict_has_def listed_a_def listed_b_def
        old_timestamps_def broken_cache_def stamped_b_def url_a_def url_b_def dict_set_def
        example_world_def)
  moreover have "MAX_PAPERS example_cfg = 100"
    by (simp add: example_cfg_def)
  ultimately show ?thesis
    by (simp add: listing_def example_fetch ev example_feed slice_to_def
        del: assign_pub_dates.simps)
qed

lemma example_process_a:
  "process_paper example_cfg (example_tasks 0) listed_a (Some old_timestamps) (Some broken_cache)
     = Inl (KeyError (ascii ''title''))"
  by (simp add: process_paper_def lookup_cached_def subscript_def dict_has_def listed_a_def
      old_timestamps_def broken_cache_def restore_from_cache_def title_prefix_def)

lemma example_lookup_b:
  "lookup_cached stamped_b (Some old_timestamps) (Some broken_cache) = Inr None"
  by (simp add: lookup_cached_def subscript_def dict_has_def stamped_b_def listed_b_def
      old_timestamps_def url_a_def url_b_def)

lemma example_process_b:
  "process_paper example_cfg (example_tasks 1) stamped_b (Some old_timestamps) (Some broken_cache)
     = Inr failed_b"
proof -
  let ?msg = "ascii ''Failed to fetch https://huggingface.co/papers/2401.00002 after 3 attempts''"
  have u: "subscript stamped_b (ascii ''url'') = Inr (PStr url_b)"
    by (simp add: subscript_def stamped_b_def listed_b_def)
  have t: "title_prefix stamped_b = Inr ()"
    by (simp add: title_prefix_def stamped_b_def listed_b_def)
  have m: "error_marker ?msg = PStr fetch_failed_b"
    by (simp add: error_marker_def fetch_failed_b_def ascii_def)
  have r: "dict_set (ascii ''abstract_short'') (PStr fetch_failed_b)
             (dict_set (ascii ''abstract'') (PStr fetch_failed_b) stamped_b) = failed_b"
    by (simp add: dict_set_def failed_b_def stamped_b_def listed_b_def)
  show ?thesis
    by (simp add: process_paper_def example_lookup_b process_new_def fetch_and_translate_def
        u example_tasks_def offline_fetch mark_failed_def t m r)
qed

lemma example_scrape:
  "scrape_papers example_cfg example_world example_tasks [1, 0]
     (Some old_timestamps) (Some broken_cache) = Inr [Some failed_b, Some listed_a]"
proof -
  have a: "task_result example_cfg (example_tasks 0) (Some old_timestamps) (Some broken_cache)
             listed_a = Inr listed_a"
    by (simp add: task_result_def example_process_a) (simp add: title_prefix_def listed_a_def)
  have b: "task_result example_cfg (example_tasks (Suc 0)) (Some old_timestamps) (Some broken_cache)
             stamped_b = Inr failed_b"
    using example_process_b
    by (simp add: task_result_def) (simp add: title_prefix_def failed_b_def stamped_b_def listed_b_def)
  show ?thesis
    by (simp add: scrape_papers_def example_listing slot_of_def a b)
qed

lemma example_order: "set [1, 0 :: nat] = {..<length [listed_a, stamped_b]}"
  by auto

theorem scrape_papers_keeps_listing_order_witness:
  "listing example_cfg example_world (Some old_timestamps) (Some broken_cache)
     = Inr [listed_a, stamped_b]
   \<and> set [1, 0 :: nat] = {..<length [listed_a, stamped_b]}
   \<and> scrape_papers example_cfg example_world example_tasks [1, 0]
        (Some old_timestamps) (Some broken_cache) = Inr [Some failed_b, Some listed_a]
   \<and> task_result example_cfg (example_tasks 0) (Some old_timestamps) (Some broken_cache) listed_a
        = Inr listed_a
   \<and> last [Some failed_b, Some listed_a] = Some listed_a"
proof -
  from scrape_papers_keeps_listing_order [OF example_listing example_order, of example_tasks]
  obtain slots where
    t: "\<forall>i<length [listed_a, stamped_b].
           task_result example_cfg (example_tasks i) (Some old_timestamps) (Some broken_cache)
             ([listed_a, stamped_b] ! i) = Inr (slots ! i)"
    and s: "scrape_papers example_cfg example_world example_tasks [1, 0]
              (Some old_timestamps) (Some broken_cache) = Inr (rev (map Some slots))"
    and l: "last (rev (map Some slots)) = Some (slots ! 0)"
    by auto
  from s [unfolded example_scrape]
  have r: "rev (map Some slots) = [Some failed_b, Some listed_a]"
    by simp
  then have "map Some slots = rev [Some failed_b, Some listed_a]"
    by (metis rev_rev_ident)
  then have slots: "slots = [listed_a, failed_b]"
    by auto
  from t have "task_result example_cfg (example_tasks 0) (Some old_timestamps) (Some broken_cache)
        listed_a = Inr (slots ! 0)"
    by auto
  then have a: "task_result example_cfg (example_tasks 0) (Some old_timestamps)
        (Some broken_cache) listed_a = Inr listed_a"
    by (simp add: slots)
  from l have b: "last [Some failed_b, Some listed_a] = Some listed_a"
    unfolding r by (simp add: slots)
  show ?thesis
    using example_listing example_order example_scrape a b by blast
qed

text \<open>
  Claim C8, as stated, fails: a cached entry without a title makes the task of the first
  paper raise \<open>KeyError\<close>; the handler of \<open>scrape_papers\<close> keeps the listed record,
  which has no abstract and so no error marker.
\<close>

theorem cached_failure_has_no_marker:
  "process_paper example_cfg (example_tasks 0) listed_a (Some old_timestamps) (Some broken_cache)
     = Inl (KeyError (ascii ''title''))
   \<and> scrape_papers example_cfg example_world example_tasks [1, 0]
        (Some old_timestamps) (Some broken_cache) = Inr [Some failed_b, Some listed_a]
   \<and> map_of listed_a (ascii ''abstract'') = None
   \<and> map_of listed_a (ascii ''abstract_short'') = None"
proof (intro conjI)
  show "process_paper example_cfg (example_tasks 0) listed_a (Some old_timestamps)
          (Some broken_cache) = Inl (KeyError (ascii ''title''))"
    by (rule example_process_a)
  show "scrape_papers example_cfg example_world example_tasks [1, 0]
          (Some old_timestamps) (Some broken_cache) = Inr [Some failed_b, Some listed_a]"
    by (rule example_scrape)
  show "map_of listed_a (ascii ''abstract'') = None"
    by (simp add: listed_a_def)
  show "map_of listed_a (ascii ''abstract_short'') = None"
    by (simp add: listed_a_def)
qed

lemma example_marker:
  "error_marker (ascii ''Failed to fetch '' @ url_b @ ascii '' after ''
      @ str_int (MAX_RETRIES example_cfg) @ ascii '' attempts'') = PStr fetch_failed_b"
proof -
  have "str_int (MAX_RETRIES example_cfg) = [51]"
    by (simp add: str_int_def example_cfg_def digits.simps [of 3])
  then show ?thesis
    by (simp add: error_marker_def fetch_failed_b_def url_b_def ascii_def)
qed

theorem failed_paper_is_kept_witness:
  "listing example_cfg example_world (Some old_timestamps) (Some broken_cache)
     = Inr [listed_a, stamped_b]
   \<and> set [1, 0 :: nat] = {..<length [listed_a, stamped_b]}
   \<and> process_paper example_cfg (example_tasks 0) listed_a (Some old_timestamps) (Some broken_cache)
       = Inl (KeyError (ascii ''title''))
   \<and> lookup_cached stamped_b (Some old_timestamps) (Some broken_cache) = Inr None
   \<and> map_of stamped_b (ascii ''url'') = Some (PStr url_b)
   \<and> http_get (example_tasks 1) 0 url_b = None
   \<and> http_get (example_tasks 1) 1 url_b = None
   \<and> http_get (example_tasks 1) 2 url_b = None
   \<and> (\<exists>out r. scrape_papers example_cfg example_world example_tasks [1, 0]
               (Some old_timestamps) (Some broken_cache) = Inr out
          \<and> length out = 2
          \<and> out ! 1 = Some listed_a
          \<and> out ! 0 = Some r
          \<and> map_of r (ascii ''abstract'') = Some (PStr fetch_failed_b)
          \<and> map_of r (ascii ''abstract_short'') = Some (PStr fetch_failed_b)
          \<and> map_of r (ascii ''title'') = map_of stamped_b (ascii ''title''))"
proof -
  have u: "map_of stamped_b (ascii ''url'') = Some (PStr url_b)"
    by (simp add: stamped_b_def listed_b_def)
  have off: "\<forall>k < nat (MAX_RETRIES example_cfg). http_get (example_tasks 1) k url_b = None"
    by (simp add: example_tasks_def offline_world_def)
  have off3: "http_get (example_tasks 1) 0 url_b = None" "http_get (example_tasks 1) 1 url_b = None"
    "http_get (example_tasks 1) 2 url_b = None"
    by (simp_all add: example_tasks_def offline_world_def)
  from failed_paper_is_kept [OF example_listing example_order, of 0 example_tasks]
  obtain out where
    o: "scrape_papers example_cfg example_world example_tasks [1, 0]
               (Some old_timestamps) (Some broken_cache) = Inr out"
    and len: "length out = 2"
    and a: "\<forall>e. process_paper example_cfg (example_tasks 0) listed_a (Some old_timestamps)
                  (Some broken_cache) = Inl e \<longrightarrow> out ! 1 = Some listed_a"
    by auto
  from failed_paper_is_kept [OF example_listing example_order, of 1 example_tasks]
  obtain out' where
    o': "scrape_papers example_cfg example_world example_tasks [1, 0]
               (Some old_timestamps) (Some broken_cache) = Inr out'"
    and b: "\<forall>url. lookup_cached stamped_b (Some old_timestamps) (Some broken_cache) = Inr None
           \<and> map_of stamped_b (ascii ''url'') = Some (PStr url)
           \<and> (\<forall>k < nat (MAX_RETRIES example_cfg). http_get (example_tasks 1) k url = None) \<longrightarrow>
           (\<exists>r. out' ! 0 = Some r
              \<and> map_of r (ascii ''abstract'') =
                  Some (error_marker (ascii ''Failed to fetch '' @ url @ ascii '' after ''
                          @ str_int (MAX_RETRIES example_cfg) @ ascii '' attempts''))
              \<and> map_of r (ascii ''abstract_short'') =
                  Some (error_marker (ascii ''Failed to fetch '' @ url @ ascii '' after ''
                          @ str_int (MAX_RETRIES example_cfg) @ ascii '' attempts''))
              \<and> (\<forall>k. k \<noteq> ascii ''abstract'' \<and> k \<noteq> ascii ''abstract_short'' \<longrightarrow>
                    map_of r k = map_of stamped_b k))"
    by auto
  from o o' have same: "out' = out" by simp
  from a example_process_a have a': "out ! 1 = Some listed_a" by blast
  from b [rule_format, of url_b] example_lookup_b u off obtain r where
    r: "out' ! 0 = Some r"
    "map_of r (ascii ''abstract'') = Some (PStr fetch_failed_b)"
    "map_of r (ascii ''abstract_short'') = Some (PStr fetch_failed_b)"
    "\<forall>k. k \<noteq> ascii ''abstract'' \<and> k \<noteq> ascii ''abstract_short'' \<longrightarrow>
                    map_of r k = map_of stamped_b k"
    unfolding example_marker by blast
  from r(4) have "map_of r (ascii ''title'') = map_of stamped_b (ascii ''title'')"
    by simp
  with o len a' r(1,2,3) same example_listing example_order example_process_a example_lookup_b u off3
  show ?thesis by blast
qed

lemma example_two_paragraphs:
  "short_abstract page_two_paragraphs = ascii ''[Not available]''"
  "full_abstract page_two_paragraphs = ascii ''Full text''"
proof -
  show s: "short_abstract page_two_paragraphs = ascii ''[Not available]''"
    by (simp add: short_abstract_def page_two_paragraphs_def re_search_def short_abstract_div_def
        ascii_def)
  show "full_abstract page_two_paragraphs = ascii ''Full text''"
    by (simp add: full_abstract_def s page_two_paragraphs_def re_search_def abstract_heading_def
        heading_start_def paragraph_block_def markup_tag_def summary_label_def
        re_sub_at_start_def counts_def not_gt_def any_char_def strip_def is_space_def ascii_def
        upt_rec)
qed

theorem translation_fallback_witness:
  "translate example_world 0 (ascii ''Full text'') (ascii ''zh-CN'') = None
   \<and> translate example_world 1 (ascii ''Full text'') (ascii ''zh-CN'') = None
   \<and> translate example_world 2 (ascii ''Full text'') (ascii ''zh-CN'') = None
   \<and> fst (translate_with_retry example_world 0 (ascii ''Full text'') (ascii ''zh-CN'') 3)
       = ascii ''Full text''
   \<and> lookup_cached paper_a None None = Inr None
   \<and> map_of paper_a (ascii ''url'') = Some (PStr url_a)
   \<and> fetch_with_retry example_cfg example_world 0 url_a = (Inr page_two_paragraphs, 2)
   \<and> \<not> translatable (short_abstract page_two_paragraphs)
   \<and> translatable (full_abstract page_two_paragraphs)
   \<and> (\<exists>result. process_paper example_cfg example_world paper_a None None = Inr result
          \<and> map_of result (desc_key (ascii ''zh-CN'')) = None
          \<and> map_of result (abs_key (ascii ''zh-CN'')) = Some (PStr (ascii ''Full text'')))"
proof -
  have tr: "translate example_world n s l = None" for n s l
    by (simp add: example_world_def)
  have lc: "lookup_cached paper_a None None = Inr None"
    by (simp add: lookup_cached_def)
  have u: "map_of paper_a (ascii ''url'') = Some (PStr url_a)"
    by (simp add: paper_a_def)
  have ti: "has_text paper_a (ascii ''title'')"
    by (simp add: has_text_def paper_a_def ascii_def)
  have nt: "\<not> translatable (short_abstract page_two_paragraphs)"
    by (simp add: example_two_paragraphs translatable_def)
  have ft: "translatable (full_abstract page_two_paragraphs)"
    by (simp add: example_two_paragraphs translatable_def ascii_def)
  have lang: "ascii ''zh-CN'' \<in> set (TARGET_LANGUAGES example_cfg)"
    by (simp add: example_cfg_def)
  from process_new_total [OF u ti, of example_cfg example_world] lc
  obtain result where
    pp: "process_paper example_cfg example_world paper_a None None = Inr result"
    by (auto simp: process_paper_def)
  note inst = translation_fallback
    [of 3 example_world 0 "ascii ''Full text''" "ascii ''zh-CN''" paper_a None None url_a
        example_cfg page_two_paragraphs 2 result]
  from inst tr have a: "fst (translate_with_retry example_world 0 (ascii ''Full text'')
                          (ascii ''zh-CN'') 3) = ascii ''Full text''"
    by blast
  from inst lc u example_fetch pp nt
  have "map_of result (desc_key (ascii ''zh-CN'')) = map_of paper_a (desc_key (ascii ''zh-CN''))"
    by blast
  then have b: "map_of result (desc_key (ascii ''zh-CN'')) = None"
    by (simp add: paper_a_def desc_key_def ascii_def)
  from inst lc u example_fetch pp ft tr lang
  have c: "map_of result (abs_key (ascii ''zh-CN''))
             = Some (PStr (full_abstract page_two_paragraphs))"
    by blast
  from a b c pp tr lc u example_fetch nt ft show ?thesis
    by (simp add: example_two_paragraphs)
qed

theorem cached_paper_translations_witness:
  "lookup_cached paper_a (Some old_timestamps) (Some example_cache)
     = Inr (Some (PDict cached_entry_a))
   \<and> cached_entry_a \<noteq> []
   \<and> title_prefix paper_a = Inr ()
   \<and> dict_has cached_entry_a (ascii ''title'')
   \<and> dict_has cached_entry_a (ascii ''url'')
   \<and> (\<exists>result. process_paper example_cfg example_world paper_a
                   (Some old_timestamps) (Some example_cache) = Inr result
          \<and> map_of result (desc_key (ascii ''zh-CN'')) = Some (PStr (ascii ''translated''))
          \<and> map_of result (abs_key (ascii ''zh-CN'')) = Some (PStr []))"
proof -
  let ?tr = "[(ascii ''descriptions'', PDict [(ascii ''zh-CN'', PStr (ascii ''translated''))]),
             (ascii ''abstract_fulls'', PDict [])]"
  have lc: "lookup_cached paper_a (Some old_timestamps) (Some example_cache)
              = Inr (Some (PDict cached_entry_a))"
    by (simp add: lookup_cached_def subscript_def paper_a_def old_timestamps_def dict_has_def
        example_cache_def)
  have ne: "cached_entry_a \<noteq> []"
    by (simp add: cached_entry_a_def)
  have tp: "title_prefix paper_a = Inr ()"
    by (simp add: title_prefix_def paper_a_def)
  have ht: "dict_has cached_entry_a (ascii ''title'')" and hu: "dict_has cached_entry_a (ascii ''url'')"
    by (simp_all add: dict_has_def cached_entry_a_def)
  have t: "dict_get cached_entry_a (ascii ''translations'') (PDict []) = PDict ?tr"
    by (simp add: dict_get_def cached_entry_a_def)
  have d: "dict_get ?tr (ascii ''descriptions'') (PDict [])
             = PDict [(ascii ''zh-CN'', PStr (ascii ''translated''))]"
    and f: "dict_get ?tr (ascii ''abstract_fulls'') (PDict []) = PDict []"
    by (simp_all add: dict_get_def)
  have lang: "ascii ''zh-CN'' \<in> set (TARGET_LANGUAGES example_cfg)"
    by (simp add: example_cfg_def)
  from cached_paper_translations [OF lc ne tp ht hu t d f, of example_cfg example_world] lang
  obtain result where
    "process_paper example_cfg example_world paper_a (Some old_timestamps) (Some example_cache)
       = Inr result"
    "map_of result (desc_key (ascii ''zh-CN''))
       = Some (dict_get [(ascii ''zh-CN'', PStr (ascii ''translated''))] (ascii ''zh-CN'') (PStr []))"
    "map_of result (abs_key (ascii ''zh-CN'')) = Some (dict_get [] (ascii ''zh-CN'') (PStr []))"
    by blast
  then have "\<exists>result. process_paper example_cfg example_world paper_a
                   (Some old_timestamps) (Some example_cache) = Inr result
          \<and> map_of result (desc_key (ascii ''zh-CN'')) = Some (PStr (ascii ''translated''))
          \<and> map_of result (abs_key (ascii ''zh-CN'')) = Some (PStr [])"
    by (simp add: dict_get_def)
  with lc ne tp ht hu show ?thesis by blast
qed

end
